(* ===== verification/Prelude.thy ===== *)
theory Prelude
  imports Main "HOL-Library.Word"
begin

text \<open>
  Shared material of the sprite-tool development: the channel type (an unsigned
  byte, as Pillow stores RGBA pixels), the collections of rewrite rules the
  component theories feed, and generic lemmas on folds computing minima and maxima
  (the bounding-box loops of the scripts are such folds) and on Python's floor
  division (the centring offsets use \<open>//\<close> on Python integers, which is
  \<open>div\<close> on \<open>int\<close>).
\<close>

type_synonym byte = "8 word"

text \<open>
  The exceptions the scripts can meet. A path is the pair of a folder and a file
  name, the two arguments the scripts give to \<open>os.path.join\<close>.
\<close>

type_synonym path = "string \<times> string"

datatype error =
    FileNotFound path                 \<comment> \<open>\<open>FileNotFoundError\<close> of \<open>open\<close>, \<open>os.remove\<close>\<close>
  | UnidentifiedImage path            \<comment> \<open>\<open>PIL.UnidentifiedImageError\<close>\<close>
  | CropRightLessThanLeft             \<comment> \<open>\<open>ValueError\<close> of \<open>Image.crop\<close>\<close>
  | CropLowerLessThanUpper
  | ImagesDoNotMatch                  \<comment> \<open>\<open>ValueError\<close> of \<open>Image.paste\<close>\<close>
  | BadTransparencyMask
  | InvalidIntLiteral string          \<comment> \<open>\<open>ValueError\<close> of \<open>int(s)\<close>\<close>

text \<open>The value of a computation that did not raise.\<close>

definition ok :: "'e + 'a \<Rightarrow> 'a option" where
  "ok r = (case r of Inl _ \<Rightarrow> None | Inr a \<Rightarrow> Some a)"

named_theorems image_simps \<open>size and pixel equations of the Pillow operations\<close>
named_theorems fs_simps \<open>equations of the file-system operations\<close>

subsection \<open>Folds computing minima and maxima\<close>

lemma fold_filter_step:
  "fold (\<lambda>p s. if P p then g p s else s) xs s = fold g (filter P xs) s"
  by (induction xs arbitrary: s) simp_all

lemma fold_max_Max:
  "fold (\<lambda>x m. max m (f x)) xs m = Max (insert m (f ` set xs))"
proof -
  have "fold (\<lambda>x m. max m (f x)) xs m = fold max (map f xs) m"
    by (induction xs arbitrary: m) (simp_all add: max.commute)
  also have "\<dots> = Max (set (m # map f xs))"
    by (simp only: Max.set_eq_fold)
  finally show ?thesis by simp
qed

lemma fold_min_Min:
  "fold (\<lambda>x m. min m (f x)) xs m = Min (insert m (f ` set xs))"
proof -
  have "fold (\<lambda>x m. min m (f x)) xs m = fold min (map f xs) m"
    by (induction xs arbitrary: m) (simp_all add: min.commute)
  also have "\<dots> = Min (set (m # map f xs))"
    by (simp only: Min.set_eq_fold)
  finally show ?thesis by simp
qed

text \<open>A loop that keeps the least and greatest coordinates seen so far, one
  accumulator per component, computes the four extrema.\<close>

lemma fold_bounds4:
  "fold (\<lambda>(x, y) (a, b, c, d). (min a x, min b y, max c x, max d y)) ps (a, b, c, d) =
     (Min (insert a (fst ` set ps)), Min (insert b (snd ` set ps)),
      Max (insert c (fst ` set ps)), Max (insert d (snd ` set ps)))"
proof -
  have "fold (\<lambda>(x, y) (a, b, c, d). (min a x, min b y, max c x, max d y)) ps (a, b, c, d) =
     (fold (\<lambda>p m. min m (fst p)) ps a, fold (\<lambda>p m. min m (snd p)) ps b,
      fold (\<lambda>p m. max m (fst p)) ps c, fold (\<lambda>p m. max m (snd p)) ps d)"
    by (induction ps arbitrary: a b c d) auto
  then show ?thesis by (simp only: fold_min_Min fold_max_Max)
qed

lemma fold_nested_upt:
  "fold (\<lambda>y. fold (\<lambda>x. g (x, y)) [0..<w]) ys s =
     fold g (concat (map (\<lambda>y. map (\<lambda>x. (x, y)) [0..<w]) ys)) s"
  by (induction ys arbitrary: s) (simp_all add: fold_map o_def)

lemma Max_insert_absorb:
  "finite A \<Longrightarrow> A \<noteq> {} \<Longrightarrow> m \<le> Max A \<Longrightarrow> Max (insert m A) = Max A"
  by (simp add: max_absorb2)

lemma Min_insert_absorb:
  "finite A \<Longrightarrow> A \<noteq> {} \<Longrightarrow> Min A \<le> m \<Longrightarrow> Min (insert m A) = Min A"
  by (simp add: min_absorb2)

lemma div255_shift:
  assumes "v \<le> (65025::nat)"
  shows "((v + 128) div 256 + (v + 128)) div 256 = (v + 127) div 255"
proof -
  define q where "q = (v + 127) div 255"
  define k where "k = (v + 127) mod 255"
  have v: "v + 128 = 255 * q + k + 1" by (simp add: q_def k_def)
  have k: "k < 255" by (simp add: k_def)
  have q: "q \<le> 255"
    using assms unfolding q_def by (intro less_Suc_eq_le[THEN iffD1] less_mult_imp_div_less) simp
  show ?thesis
  proof (cases "q \<le> k + 1")
    case True
    then have "(v + 128) div 256 = q"
      by (intro div_nat_eqI) (use v k in \<open>simp_all\<close>)
    then have "((v + 128) div 256 + (v + 128)) div 256 = q"
      by (intro div_nat_eqI) (use v k in \<open>simp_all\<close>)
    then show ?thesis by (simp add: q_def)
  next
    case False
    then have "(v + 128) div 256 = q - 1"
      by (intro div_nat_eqI) (use v k q in \<open>simp_all\<close>)
    then have "((v + 128) div 256 + (v + 128)) div 256 = q"
      using False by (intro div_nat_eqI) (use v k in \<open>simp_all\<close>)
    then show ?thesis by (simp add: q_def)
  qed
qed

subsection \<open>Python floor division on integers\<close>

text \<open>
  Python's \<open>a // b\<close> on integers rounds towards minus infinity, as HOL's
  \<open>div\<close> on \<open>int\<close> does; the lemmas below are the facts about halving that the
  centring offsets need.
\<close>

lemma half_diff_nonneg [simp]: "(0::int) \<le> (a - b) div 2 \<longleftrightarrow> b \<le> a"
  by arith

lemma half_diff_fits: "b \<le> (a::int) \<Longrightarrow> (a - b) div 2 + b \<le> a"
  by arith

lemma div255_bound: "v \<le> (65025::nat) \<Longrightarrow> (v + 127) div 255 \<le> 255"
  by simp

lemma half_diff_neg: "(a::int) < b \<Longrightarrow> (a - b) div 2 < 0"
  by arith

lemma Min_diff_image:
  "finite A \<Longrightarrow> A \<noteq> {} \<Longrightarrow> Min ((\<lambda>x. x - k) ` A) = Min A - (k::nat)"
  by (rule mono_Min_commute[symmetric]) (auto simp: mono_def intro: diff_le_mono)

lemma Max_diff_image:
  "finite A \<Longrightarrow> A \<noteq> {} \<Longrightarrow> Max ((\<lambda>x. x - k) ` A) = Max A - (k::nat)"
  by (rule mono_Max_commute[symmetric]) (auto simp: mono_def intro: diff_le_mono)

end
