(* ===== verification/Pillow.thy ===== *)
theory Pillow
  imports Prelude
begin

text \<open>
  The part of the Pillow imaging library the scripts call, modelled from its
  documented behaviour (it is not code of this repository): RGBA pixels of four
  unsigned bytes, images as rows of pixels with a mode, and the operations
  \<open>Image.new\<close>, \<open>Image.convert('RGBA')\<close>, \<open>Image.crop\<close>, \<open>Image.getbbox\<close> and
  \<open>Image.paste(im, box, mask)\<close>. Paste blends every channel with the C macros
  \<open>BLEND\<close> and \<open>DIV255\<close> of Pillow's \<open>Paste.c\<close>, computed on 32-bit words.
\<close>

section \<open>Pixels and images\<close>

record rgba =
  red :: byte
  green :: byte
  blue :: byte
  alpha :: byte

definition transparent :: rgba where
  "transparent = \<lparr>red = 0, green = 0, blue = 0, alpha = 0\<rparr>"

datatype mode = RGBA | RGB

text \<open>
  An image is its mode, its size and its pixel rows: \<open>data im ! y ! x\<close> is the
  pixel at column \<open>x\<close>, row \<open>y\<close>. In mode \<open>RGB\<close> the alpha byte is not part
  of the image.
\<close>

record image =
  mode :: mode
  width :: nat
  height :: nat
  data :: "rgba list list"

definition wf_image :: "image \<Rightarrow> bool" where
  "wf_image im \<longleftrightarrow>
     length (data im) = height im \<and> (\<forall>row \<in> set (data im). length row = width im)"

text \<open>Reading a pixel; outside the buffer the value is zero, as crop fills it.\<close>

definition pixel_at :: "image \<Rightarrow> nat \<Rightarrow> nat \<Rightarrow> rgba" where
  "pixel_at im x y =
     (if y < length (data im) \<and> x < length (data im ! y) then data im ! y ! x
      else transparent)"

definition pixel_at_int :: "image \<Rightarrow> int \<Rightarrow> int \<Rightarrow> rgba" where
  "pixel_at_int im x y =
     (if 0 \<le> x \<and> 0 \<le> y then pixel_at im (nat x) (nat y) else transparent)"

text \<open>
  The pixels \<open>getbbox\<close> counts as content: a non-zero alpha byte in mode RGBA
  (\<open>alpha_only\<close>, the default), a non-zero colour byte in mode RGB.
\<close>

definition is_content :: "mode \<Rightarrow> rgba \<Rightarrow> bool" where
  "is_content m p =
     (case m of RGBA \<Rightarrow> alpha p \<noteq> 0 | RGB \<Rightarrow> red p \<noteq> 0 \<or> green p \<noteq> 0 \<or> blue p \<noteq> 0)"

section \<open>Creating and converting\<close>

definition new_image :: "mode \<Rightarrow> nat \<times> nat \<Rightarrow> rgba \<Rightarrow> image" where
  "new_image m sz c =
     \<lparr>mode = m, width = fst sz, height = snd sz,
      data = replicate (snd sz) (replicate (fst sz) c)\<rparr>"

definition convert_rgba :: "image \<Rightarrow> image" where
  "convert_rgba im =
     (case mode im of
        RGBA \<Rightarrow> im
      | RGB \<Rightarrow> im\<lparr>mode := RGBA, data := map (map (\<lambda>p. p\<lparr>alpha := 255\<rparr>)) (data im)\<rparr>)"

section \<open>Cropping\<close>

text \<open>
  \<open>Image.crop((l, t, r, b))\<close> raises when the box is reversed, and otherwise
  returns an image of size \<open>(r - l) \<times> (b - t)\<close> whose pixel \<open>(x, y)\<close> is the
  source pixel \<open>(l + x, t + y)\<close>, zero where that lies outside the source.
\<close>

definition crop :: "image \<Rightarrow> int \<times> int \<times> int \<times> int \<Rightarrow> error + image" where
  "crop im box =
     (case box of (l, t, r, b) \<Rightarrow>
        if r < l then Inl CropRightLessThanLeft
        else if b < t then Inl CropLowerLessThanUpper
        else Inr \<lparr>mode = mode im, width = nat (r - l), height = nat (b - t),
                  data = map (\<lambda>y. map (\<lambda>x. pixel_at_int im (l + int x) (t + int y))
                                      [0..<nat (r - l)])
                             [0..<nat (b - t)]\<rparr>)"

section \<open>Bounding box\<close>

text \<open>
  \<open>Image.getbbox()\<close>: the smallest box \<open>(left, upper, right, lower)\<close>, right and
  lower exclusive, that holds every content pixel; \<open>None\<close> when there is none.
  The content pixels are listed in raster order, as the library scans them.
\<close>

definition raster :: "nat \<Rightarrow> nat \<Rightarrow> (nat \<times> nat) list" where
  "raster w h = concat (map (\<lambda>y. map (\<lambda>x. (x, y)) [0..<w]) [0..<h])"

definition content_points :: "image \<Rightarrow> (nat \<times> nat) list" where
  "content_points im =
     filter (\<lambda>(x, y). is_content (mode im) (pixel_at im x y)) (raster (width im) (height im))"

definition getbbox :: "image \<Rightarrow> (int \<times> int \<times> int \<times> int) option" where
  "getbbox im =
     (let ps = content_points im in
      if ps = [] then None
      else Some (int (Min (fst ` set ps)), int (Min (snd ` set ps)),
                 int (Max (fst ` set ps)) + 1, int (Max (snd ` set ps)) + 1))"

section \<open>Pasting with a transparency mask\<close>

text \<open>
  \<open>DIV255\<close> and \<open>BLEND\<close> of Pillow's \<open>Paste.c\<close>, on the 32-bit unsigned
  \<open>tmp\<close> the C code uses; the result is stored into a byte.
\<close>

definition div255 :: "32 word \<Rightarrow> 32 word" where
  "div255 a = (let tmp = a + 128 in drop_bit 8 (drop_bit 8 tmp + tmp))"

definition blend :: "byte \<Rightarrow> byte \<Rightarrow> byte \<Rightarrow> byte" where
  "blend m in1 in2 =
     ucast (div255 (ucast in1 * (255 - ucast m) + ucast in2 * ucast m))"

text \<open>\<open>paste_mask_RGBA\<close>: all four bytes of the output pixel are blended with
  the mask pixel's alpha byte.\<close>

definition blend_px :: "byte \<Rightarrow> rgba \<Rightarrow> rgba \<Rightarrow> rgba" where
  "blend_px a out inp =
     \<lparr>red = blend a (red out) (red inp), green = blend a (green out) (green inp),
      blue = blend a (blue out) (blue inp), alpha = blend a (alpha out) (alpha inp)\<rparr>"

text \<open>
  \<open>canvas.paste(im, (dx, dy), mask)\<close>: the box is \<open>(dx, dy, dx + w, dy + h)\<close>
  with \<open>(w, h)\<close> the size of \<open>im\<close>; an image of another mode is converted to the
  canvas mode first (Python side of \<open>Image.paste\<close>, which leaves an RGBA image
  on an RGB canvas as it is); the mask must have the box's size; the box is clipped
  to the canvas, and a box that misses the canvas leaves it unchanged before the
  mask mode is looked at; an RGB mask is refused.
\<close>

definition in_box :: "int \<times> int \<Rightarrow> nat \<times> nat \<Rightarrow> nat \<Rightarrow> nat \<Rightarrow> bool" where
  "in_box off sz cx cy \<longleftrightarrow>
     fst off \<le> int cx \<and> int cx < fst off + int (fst sz) \<and>
     snd off \<le> int cy \<and> int cy < snd off + int (snd sz)"

definition box_misses :: "image \<Rightarrow> int \<times> int \<Rightarrow> nat \<times> nat \<Rightarrow> bool" where
  "box_misses canvas off sz \<longleftrightarrow>
     min (fst off + int (fst sz)) (int (width canvas)) \<le> max (fst off) 0 \<or>
     min (snd off + int (snd sz)) (int (height canvas)) \<le> max (snd off) 0"

definition paste_source :: "image \<Rightarrow> image \<Rightarrow> image" where
  "paste_source canvas im =
     (if mode im \<noteq> mode canvas \<and> mode canvas = RGBA then convert_rgba im else im)"

definition paste :: "image \<Rightarrow> image \<Rightarrow> int \<times> int \<Rightarrow> image \<Rightarrow> error + image" where
  "paste canvas im off msk =
     (let src = paste_source canvas im;
          sz = (width im, height im)
      in if (width msk, height msk) \<noteq> sz then Inl ImagesDoNotMatch
         else if box_misses canvas off sz then Inr canvas
         else if mode msk \<noteq> RGBA then Inl BadTransparencyMask
         else Inr (canvas\<lparr>data :=
           map (\<lambda>cy. map (\<lambda>cx.
                  if in_box off sz cx cy
                  then (let sx = nat (int cx - fst off); sy = nat (int cy - snd off)
                        in blend_px (alpha (pixel_at msk sx sy)) (pixel_at canvas cx cy)
                                    (pixel_at src sx sy))
                  else pixel_at canvas cx cy) [0..<width canvas]) [0..<height canvas]\<rparr>))"

section \<open>Sample images\<close>

text \<open>Small RGBA images the witnesses of the development evaluate the operations on.\<close>

definition solid :: rgba where
  "solid = \<lparr>red = 200, green = 40, blue = 30, alpha = 255\<rparr>"

definition sample_image :: "rgba list list \<Rightarrow> image" where
  "sample_image rows =
     \<lparr>mode = RGBA, width = (case rows of [] \<Rightarrow> 0 | r # _ \<Rightarrow> length r),
      height = length rows, data = rows\<rparr>"

section \<open>Lemmas: blending\<close>

lemma unat_byte_le: "unat (a::byte) \<le> 255"
  using unsigned_less[of a, where ?'a = nat] by simp

lemma unat_ucast_byte: "unat (ucast (a::byte) :: 32 word) = unat a"
proof -
  have "unat a < 2 ^ 32" using unat_byte_le[of a] by simp
  then show ?thesis by (simp add: unsigned_ucast_eq take_bit_nat_eq_self)
qed

lemma blend_arg_bound:
  "unat (in1::byte) * (255 - unat m) + unat (in2::byte) * unat (m::byte) \<le> 65025"
proof -
  have a: "unat in1 \<le> 255" "unat in2 \<le> 255" "unat m \<le> 255"
    by (simp_all only: unat_byte_le)
  have "unat in1 * (255 - unat m) \<le> 255 * (255 - unat m)" using a by simp
  moreover have "unat in2 * unat m \<le> 255 * unat m" using a by simp
  ultimately show ?thesis using a by linarith
qed

lemma unat_blend_arg:
  "unat (ucast (in1::byte) * (255 - ucast m) + ucast (in2::byte) * (ucast m :: 32 word)) =
     unat in1 * (255 - unat m) + unat in2 * unat (m::byte)"
  (is "unat ?e = ?v")
proof -
  have a: "unat in1 \<le> 255" "unat in2 \<le> 255" "unat m \<le> 255"
    by (simp_all only: unat_byte_le)
  have s: "unat (255 - ucast m :: 32 word) = 255 - unat m"
  proof -
    have "(ucast m :: 32 word) \<le> 255" using a(3) by (simp add: word_le_nat_alt unat_ucast_byte)
    then show ?thesis by (simp add: unat_sub unat_ucast_byte)
  qed
  have p1: "unat (ucast in1 * (255 - ucast m) :: 32 word) = unat in1 * (255 - unat m)"
  proof -
    have "unat in1 * (255 - unat m) \<le> 255 * 255" using a by (intro mult_le_mono) simp_all
    then show ?thesis by (simp add: unat_mult_lem[THEN iffD1] s unat_ucast_byte)
  qed
  have p2: "unat (ucast in2 * ucast m :: 32 word) = unat in2 * unat m"
  proof -
    have "unat in2 * unat m \<le> 255 * 255" using a by (intro mult_le_mono) simp_all
    then show ?thesis by (simp add: unat_mult_lem[THEN iffD1] unat_ucast_byte)
  qed
  have "?v \<le> 65025" by (rule blend_arg_bound)
  then show ?thesis by (simp add: unat_add_lem[THEN iffD1] p1 p2)
qed

lemma unat_div255:
  assumes "unat a \<le> 65025"
  shows "unat (div255 a) = (unat a + 127) div 255"
proof -
  have t: "unat (a + 128) = unat a + 128"
    using assms by (simp add: unat_add_lem[THEN iffD1])
  have d: "unat (drop_bit 8 (a + 128)) = (unat a + 128) div 256"
    by (simp only: unat_drop_bit_eq t) (simp add: drop_bit_eq_div)
  have "unat (drop_bit 8 (a + 128) + (a + 128)) = (unat a + 128) div 256 + (unat a + 128)"
    using assms by (simp add: unat_add_lem[THEN iffD1] d t)
  then have "unat (div255 a) = ((unat a + 128) div 256 + (unat a + 128)) div 256"
    by (simp only: div255_def Let_def unat_drop_bit_eq) (simp add: drop_bit_eq_div)
  then show ?thesis using assms by (simp add: div255_shift)
qed

text \<open>No intermediate value of \<open>BLEND\<close> wraps around: the byte it stores is
  the blend rounded to the nearest integer.\<close>

lemma unat_blend:
  "unat (blend m a b) = (unat a * (255 - unat m) + unat b * unat m + 127) div 255"
proof -
  let ?v = "unat a * (255 - unat m) + unat b * unat m"
  have v: "?v \<le> 65025" by (rule blend_arg_bound)
  have e: "unat (div255 (ucast a * (255 - ucast m) + ucast b * ucast m)) = (?v + 127) div 255"
    using v by (simp add: unat_div255 unat_blend_arg)
  have "(?v + 127) div 255 < 2 ^ 8" using div255_bound[OF v] by simp
  then show ?thesis
    unfolding blend_def by (simp add: unsigned_ucast_eq take_bit_nat_eq_self e)
qed

lemma blend_transparent_mask [simp]: "blend 0 a b = a"
  by (rule word_unat_eq_iff[THEN iffD2]) (simp add: unat_blend)

lemma blend_opaque_mask [simp]: "blend 255 a b = b"
  by (rule word_unat_eq_iff[THEN iffD2]) (simp add: unat_blend)

lemma blend_px_opaque [simp]: "blend_px 255 out p = p"
  by (simp add: blend_px_def)

lemma blend_px_clear [simp]: "blend_px 0 out p = out"
  by (simp add: blend_px_def)

section \<open>Lemmas: well-formed images and pixel access\<close>

lemma pixel_at_wf [image_simps]:
  "wf_image im \<Longrightarrow> pixel_at im x y =
     (if x < width im \<and> y < height im then data im ! y ! x else transparent)"
  by (auto simp: wf_image_def pixel_at_def)

lemma image_eqI:
  assumes "wf_image a" "wf_image b" "mode a = mode b" "width a = width b"
    "height a = height b"
    and px: "\<And>x y. x < width a \<Longrightarrow> y < height a \<Longrightarrow> pixel_at a x y = pixel_at b x y"
  shows "a = b"
proof -
  have "data a = data b"
  proof (rule nth_equalityI)
    show "length (data a) = length (data b)" using assms by (simp add: wf_image_def)
  next
    fix y assume y: "y < length (data a)"
    show "data a ! y = data b ! y"
    proof (rule nth_equalityI)
      show "length (data a ! y) = length (data b ! y)"
        using assms y by (simp add: wf_image_def)
    next
      fix x assume "x < length (data a ! y)"
      with y px[of x y] assms show "data a ! y ! x = data b ! y ! x"
        by (auto simp: wf_image_def pixel_at_def)
    qed
  qed
  with assms show ?thesis by simp
qed

lemma wf_new_image [image_simps]: "wf_image (new_image m sz c)"
  by (simp add: wf_image_def new_image_def)

lemma new_image_fields [image_simps]:
  "mode (new_image m sz c) = m" "width (new_image m sz c) = fst sz"
  "height (new_image m sz c) = snd sz"
  by (simp_all add: new_image_def)

lemma pixel_at_new_image [image_simps]:
  "pixel_at (new_image m (w, h) c) x y = (if x < w \<and> y < h then c else transparent)"
  by (auto simp: new_image_def pixel_at_def)

lemma convert_rgba_fields [image_simps]:
  "mode (convert_rgba im) = RGBA" "width (convert_rgba im) = width im"
  "height (convert_rgba im) = height im"
  by (cases "mode im"; simp add: convert_rgba_def)+

lemma wf_convert_rgba [image_simps]: "wf_image im \<Longrightarrow> wf_image (convert_rgba im)"
  by (cases "mode im") (auto simp: convert_rgba_def wf_image_def)

lemma pixel_at_convert_rgba [image_simps]:
  "wf_image im \<Longrightarrow> pixel_at (convert_rgba im) x y =
     (if mode im = RGB \<and> x < width im \<and> y < height im
      then (pixel_at im x y)\<lparr>alpha := 255\<rparr> else pixel_at im x y)"
  by (cases "mode im") (auto simp: convert_rgba_def wf_image_def pixel_at_def)

section \<open>Lemmas: crop\<close>

lemma crop_Inr_iff: "(\<exists>c. crop im (l, t, r, b) = Inr c) \<longleftrightarrow> l \<le> r \<and> t \<le> b"
  by (simp add: crop_def)

lemma crop_fields [image_simps]:
  assumes "crop im (l, t, r, b) = Inr c"
  shows "mode c = mode im" "width c = nat (r - l)" "height c = nat (b - t)" "wf_image c"
  using assms by (auto simp: crop_def wf_image_def split: if_splits)

lemma pixel_at_crop [image_simps]:
  assumes "crop im (l, t, r, b) = Inr c"
  shows "pixel_at c x y =
    (if x < nat (r - l) \<and> y < nat (b - t) then pixel_at_int im (l + int x) (t + int y)
     else transparent)"
  using assms by (auto simp: crop_def pixel_at_def split: if_splits)

section \<open>Lemmas: bounding box\<close>

lemma set_raster: "set (raster w h) = {(x, y). x < w \<and> y < h}"
  by (auto simp: raster_def image_iff)

lemma set_content_points:
  "set (content_points im) =
     {(x, y). x < width im \<and> y < height im \<and> is_content (mode im) (pixel_at im x y)}"
  by (auto simp: content_points_def set_raster)

lemma content_points_Nil_iff:
  "content_points im = [] \<longleftrightarrow>
     (\<forall>x < width im. \<forall>y < height im. \<not> is_content (mode im) (pixel_at im x y))"
proof -
  have "content_points im = [] \<longleftrightarrow> set (content_points im) = {}" by simp
  then show ?thesis by (auto simp: set_content_points)
qed

lemma getbbox_None_iff:
  "getbbox im = None \<longleftrightarrow>
     (\<forall>x < width im. \<forall>y < height im. \<not> is_content (mode im) (pixel_at im x y))"
  by (simp add: getbbox_def Let_def content_points_Nil_iff)

lemma getbbox_SomeE:
  assumes "getbbox im = Some (l, t, r, b)"
  obtains P where "P = set (content_points im)" "finite P" "P \<noteq> {}"
    "l = int (Min (fst ` P))" "t = int (Min (snd ` P))"
    "r = int (Max (fst ` P)) + 1" "b = int (Max (snd ` P)) + 1"
  using assms by (auto simp: getbbox_def Let_def split: if_splits)

text \<open>The library's contract for \<open>getbbox\<close>: the box lies in the image, holds
  every content pixel, and each of its four edges touches one.\<close>

lemma getbbox_contains:
  assumes "getbbox im = Some (l, t, r, b)"
    and "x < width im" "y < height im" "is_content (mode im) (pixel_at im x y)"
  shows "l \<le> int x \<and> int x < r \<and> t \<le> int y \<and> int y < b"
proof -
  obtain P where P: "P = set (content_points im)" "finite P" "P \<noteq> {}"
    "l = int (Min (fst ` P))" "t = int (Min (snd ` P))"
    "r = int (Max (fst ` P)) + 1" "b = int (Max (snd ` P)) + 1"
    using assms(1) by (rule getbbox_SomeE)
  have "(x, y) \<in> P" using assms(2-4) P(1) by (simp add: set_content_points)
  then have "x \<in> fst ` P" "y \<in> snd ` P" by force+
  with P show ?thesis by (auto intro: Min_le Max_ge)
qed

lemma getbbox_in_image:
  assumes "getbbox im = Some (l, t, r, b)"
  shows "0 \<le> l \<and> l < r \<and> r \<le> int (width im) \<and> 0 \<le> t \<and> t < b \<and> b \<le> int (height im)"
proof -
  obtain P where P: "P = set (content_points im)" "finite P" "P \<noteq> {}"
    "l = int (Min (fst ` P))" "t = int (Min (snd ` P))"
    "r = int (Max (fst ` P)) + 1" "b = int (Max (snd ` P)) + 1"
    using assms by (rule getbbox_SomeE)
  have "Max (fst ` P) \<in> fst ` P" "Max (snd ` P) \<in> snd ` P"
    using P(2,3) by (simp_all add: Max_in)
  then have "Max (fst ` P) < width im" "Max (snd ` P) < height im"
    using P(1) by (auto simp: set_content_points)
  moreover have "Min (fst ` P) \<le> Max (fst ` P)" "Min (snd ` P) \<le> Max (snd ` P)"
    using P(2,3) by (auto intro!: Min_le Max_in)
  ultimately show ?thesis using P(4-7) by simp
qed

lemma getbbox_edges:
  assumes "getbbox im = Some (l, t, r, b)"
  shows "\<exists>y. (nat l, y) \<in> set (content_points im)"
    "\<exists>y. (nat (r - 1), y) \<in> set (content_points im)"
    "\<exists>x. (x, nat t) \<in> set (content_points im)"
    "\<exists>x. (x, nat (b - 1)) \<in> set (content_points im)"
proof -
  obtain P where P: "P = set (content_points im)" "finite P" "P \<noteq> {}"
    "l = int (Min (fst ` P))" "t = int (Min (snd ` P))"
    "r = int (Max (fst ` P)) + 1" "b = int (Max (snd ` P)) + 1"
    using assms by (rule getbbox_SomeE)
  have "Min (fst ` P) \<in> fst ` P" "Max (fst ` P) \<in> fst ` P"
    "Min (snd ` P) \<in> snd ` P" "Max (snd ` P) \<in> snd ` P"
    using P(2,3) by (simp_all add: Min_in Max_in)
  with P show "\<exists>y. (nat l, y) \<in> set (content_points im)"
    "\<exists>y. (nat (r - 1), y) \<in> set (content_points im)"
    "\<exists>x. (x, nat t) \<in> set (content_points im)"
    "\<exists>x. (x, nat (b - 1)) \<in> set (content_points im)"
    by force+
qed

section \<open>Lemmas: paste\<close>

lemma box_misses_not_in_box:
  "box_misses canvas off sz \<Longrightarrow> cx < width canvas \<Longrightarrow> cy < height canvas \<Longrightarrow>
     \<not> in_box off sz cx cy"
  by (auto simp: box_misses_def in_box_def)

lemma paste_fields [image_simps]:
  assumes "paste canvas im off msk = Inr out"
  shows "mode out = mode canvas" "width out = width canvas" "height out = height canvas"
  using assms by (auto simp: paste_def Let_def split: if_splits)

lemma wf_paste [image_simps]:
  "paste canvas im off msk = Inr out \<Longrightarrow> wf_image canvas \<Longrightarrow> wf_image out"
  by (auto simp: paste_def Let_def wf_image_def split: if_splits)

lemma pixel_at_paste:
  assumes "paste canvas im off msk = Inr out" "wf_image canvas"
    "cx < width canvas" "cy < height canvas"
  shows "pixel_at out cx cy =
    (if in_box off (width im, height im) cx cy
     then blend_px (alpha (pixel_at msk (nat (int cx - fst off)) (nat (int cy - snd off))))
                   (pixel_at canvas cx cy)
                   (pixel_at (paste_source canvas im) (nat (int cx - fst off)) (nat (int cy - snd off)))
     else pixel_at canvas cx cy)"
proof (cases "box_misses canvas off (width im, height im)")
  case True
  with assms show ?thesis
    by (auto simp: paste_def Let_def box_misses_not_in_box split: if_splits)
next
  case False
  with assms show ?thesis
    by (auto simp: paste_def Let_def pixel_at_def wf_image_def split: if_splits)
qed

lemma paste_Inl:
  assumes "paste canvas im off msk = Inl e"
  shows "(e = ImagesDoNotMatch \<and> (width msk, height msk) \<noteq> (width im, height im)) \<or>
         (e = BadTransparencyMask \<and> mode msk = RGB \<and> \<not> box_misses canvas off (width im, height im))"
  using assms by (cases "mode msk") (auto simp: paste_def Let_def split: if_splits)

lemma paste_self_mask_Inr:
  "mode im = RGBA \<Longrightarrow> \<exists>out. paste canvas im off im = Inr out"
  by (simp add: paste_def Let_def)

end
