(* ===== verification/Os.thy ===== *)
theory Os
  imports Pillow "HOL-Library.AList"
begin

text \<open>
  The environment the scripts run in, modelled from the spec (Python's \<open>os\<close>
  module, PNG files on disk, \<open>print\<close>): a file system as an association list
  from paths to files, kept in the order \<open>os.listdir\<close> returns them, a console
  that collects the lines the scripts print, and the state record \<open>sys\<close> the
  scripts transform. A PNG file holds the image Pillow decodes from it; saving an
  image as PNG stores it (PNG keeps RGB and RGBA pixels exactly); a file Pillow
  cannot identify is \<open>Unreadable\<close>.
\<close>

datatype disk_file = PngFile image | Unreadable

type_synonym fs = "(path \<times> disk_file) list"

text \<open>
  Console lines, one constructor per kind of \<open>print\<close> in the scripts. Fixed banner
  lines are \<open>Text\<close>; the per-file lines carry the file name and the sizes printed.
\<close>

datatype msg =
    Found nat
  | Text string
  | MaxDims nat nat
  | CanvasSize nat nat
  | Processed string "nat \<times> nat" "nat \<times> nat"
  | Skipped string
  | Failed string error
  | Deleted string
  | Created string string
  | Blank
  | DoneMsg
  | Original string "nat \<times> nat"
  | Saved string "nat \<times> nat"
  | Extracting nat
  | DoneCount nat

record sys =
  files :: fs
  console :: "msg list"

definition print_msg :: "msg \<Rightarrow> sys \<Rightarrow> sys" where
  "print_msg m s = s\<lparr>console := console s @ [m]\<rparr>"

definition wf_fs :: "fs \<Rightarrow> bool" where
  "wf_fs fs \<longleftrightarrow> distinct (map fst fs) \<and>
     list_all (\<lambda>(p, f). case f of PngFile im \<Rightarrow> wf_image im | Unreadable \<Rightarrow> True) fs"

text \<open>Straight-line script code without a \<open>try\<close>: the next statement runs only when
  the previous one raised nothing; an exception ends the script with the state reached.\<close>

definition bind_run :: "error \<times> sys + sys \<Rightarrow> (sys \<Rightarrow> error \<times> sys + sys) \<Rightarrow> error \<times> sys + sys" where
  "bind_run r k = (case r of Inl es \<Rightarrow> Inl es | Inr s \<Rightarrow> k s)"

text \<open>Windows paths of the scripts' raw strings: components joined by a backslash.\<close>

fun win_path :: "string list \<Rightarrow> string" where
  "win_path [] = []"
| "win_path [c] = c"
| "win_path (c # cs) = c @ CHR 0x5C # win_path cs"

text \<open>\<open>os.listdir(d)\<close>: the names of the files in folder \<open>d\<close>.\<close>

definition listdir :: "string \<Rightarrow> fs \<Rightarrow> string list" where
  "listdir d fs = [snd p. (p, f) \<leftarrow> fs, fst p = d]"

text \<open>\<open>Image.open(path)\<close>.\<close>

definition open_image :: "fs \<Rightarrow> path \<Rightarrow> error + image" where
  "open_image fs p =
     (case map_of fs p of
        None \<Rightarrow> Inl (FileNotFound p)
      | Some Unreadable \<Rightarrow> Inl (UnidentifiedImage p)
      | Some (PngFile im) \<Rightarrow> Inr im)"

text \<open>\<open>img.save(path, 'PNG')\<close> and \<open>os.remove(path)\<close>.\<close>

definition save_png :: "path \<Rightarrow> image \<Rightarrow> fs \<Rightarrow> fs" where
  "save_png p im fs = AList.update p (PngFile im) fs"

definition remove_file :: "path \<Rightarrow> fs \<Rightarrow> error + fs" where
  "remove_file p fs =
     (case map_of fs p of None \<Rightarrow> Inl (FileNotFound p) | Some _ \<Rightarrow> Inr (AList.delete p fs))"

text \<open>Python's \<open>str.startswith\<close> and \<open>str.endswith\<close>.\<close>

definition startswith :: "string \<Rightarrow> string \<Rightarrow> bool" where
  "startswith s p \<longleftrightarrow> take (length p) s = p"

definition endswith :: "string \<Rightarrow> string \<Rightarrow> bool" where
  "endswith s p \<longleftrightarrow> length p \<le> length s \<and> drop (length s - length p) s = p"

text \<open>
  The effect on the file system of a loop body that opens one image, may
  transform it, and saves the result over the same path (a failed open or a
  skipped image leaves the file as it was).
\<close>

definition rewrite_file :: "path \<Rightarrow> (image \<Rightarrow> image option) \<Rightarrow> fs \<Rightarrow> fs" where
  "rewrite_file p T fs =
     (case open_image fs p of
        Inl _ \<Rightarrow> fs
      | Inr img \<Rightarrow> (case T img of None \<Rightarrow> fs | Some c \<Rightarrow> save_png p c fs))"

definition rewritten :: "(image \<Rightarrow> image option) \<Rightarrow> disk_file option \<Rightarrow> disk_file option" where
  "rewritten T v =
     (case v of
        Some (PngFile img) \<Rightarrow> (case T img of None \<Rightarrow> v | Some c \<Rightarrow> Some (PngFile c))
      | _ \<Rightarrow> v)"

text \<open>The file a per-file console line reports on (success, skip or error), if any.\<close>

text \<open>How a straight-line script grows the console: raising, it has added some
  number of lines in \<open>A\<close>; returning, exactly \<open>n\<close> lines.\<close>

definition console_grows :: "sys \<Rightarrow> error \<times> sys + sys \<Rightarrow> nat set \<Rightarrow> nat \<Rightarrow> bool" where
  "console_grows s r A n =
     (case r of
        Inl (_, s') \<Rightarrow> (\<exists>ms. console s' = console s @ ms \<and> length ms \<in> A)
      | Inr s' \<Rightarrow> (\<exists>ms. console s' = console s @ ms \<and> length ms = n))"

definition msg_file :: "msg \<Rightarrow> string option" where
  "msg_file m =
     (case m of Processed f _ _ \<Rightarrow> Some f | Skipped f \<Rightarrow> Some f | Failed f _ \<Rightarrow> Some f
      | Created _ f \<Rightarrow> Some f | _ \<Rightarrow> None)"

text \<open>The state a script leaves behind, whether it returned or raised.\<close>

definition final_state :: "error \<times> sys + sys \<Rightarrow> sys" where
  "final_state r = (case r of Inl (e, s) \<Rightarrow> s | Inr s \<Rightarrow> s)"

section \<open>Lemmas\<close>

lemma print_msg_files [fs_simps]: "files (print_msg m s) = files s"
  by (simp add: print_msg_def)

lemma bind_run_simps [simp]:
  "bind_run (Inl es) k = Inl es" "bind_run (Inr s) k = k s"
  by (simp_all add: bind_run_def)

lemma map_of_save_png [fs_simps]: "map_of (save_png p im fs) = (map_of fs)(p \<mapsto> PngFile im)"
  by (simp add: save_png_def update_conv')

lemma open_image_save_png [fs_simps]:
  "open_image (save_png p im fs) q = (if q = p then Inr im else open_image fs q)"
  by (simp add: open_image_def map_of_save_png)

lemma listdir_save_png_existing [fs_simps]:
  "p \<in> fst ` set fs \<Longrightarrow> listdir d (save_png p im fs) = listdir d fs"
proof (induction fs)
  case Nil
  then show ?case by simp
next
  case (Cons e fs)
  obtain q f where e: "e = (q, f)" by (cases e)
  show ?case
  proof (cases "q = p")
    case True
    with Cons e show ?thesis by (simp add: save_png_def listdir_def)
  next
    case False
    with Cons e have "listdir d (save_png p im fs) = listdir d fs" by simp
    with False e show ?thesis by (simp add: save_png_def listdir_def)
  qed
qed

lemma wf_fs_save_png [fs_simps]:
  "wf_fs fs \<Longrightarrow> wf_image im \<Longrightarrow> wf_fs (save_png p im fs)"
proof -
  assume a: "wf_fs fs" "wf_image im"
  have "distinct (map fst (save_png p im fs))"
    using a(1) by (simp add: wf_fs_def save_png_def distinct_update)
  moreover have "wf_image im'" if "(q, PngFile im') \<in> set (save_png p im fs)" for q im'
  proof -
    have "map_of (save_png p im fs) q = Some (PngFile im')"
      using that \<open>distinct (map fst (save_png p im fs))\<close> by (simp add: map_of_is_SomeI)
    then have "(q = p \<and> im' = im) \<or> map_of fs q = Some (PngFile im')"
      by (auto simp: map_of_save_png split: if_splits)
    then show "wf_image im'"
      using a by (auto simp: wf_fs_def list_all_iff dest!: map_of_SomeD)
  qed
  ultimately show ?thesis
    by (auto simp: wf_fs_def list_all_iff split: disk_file.splits)
qed

lemma wf_fs_open_image:
  "wf_fs fs \<Longrightarrow> open_image fs p = Inr im \<Longrightarrow> wf_image im"
  by (auto simp: wf_fs_def open_image_def list_all_iff split: option.splits disk_file.splits
           dest!: map_of_SomeD)

lemma map_of_rewrite_file [fs_simps]:
  "map_of (rewrite_file p T fs) q = (if q = p then rewritten T (map_of fs p) else map_of fs q)"
  by (auto simp: rewrite_file_def rewritten_def open_image_def map_of_save_png
           split: option.splits disk_file.splits)

lemma keys_rewrite_file [fs_simps]: "map fst (rewrite_file p T fs) = map fst fs"
proof -
  have "map fst (save_png p c fs) = map fst fs" if "map_of fs p \<noteq> None" for c
  proof -
    have "p \<in> set (map fst fs)" using that map_of_eq_None_iff[of fs p] by auto
    then show ?thesis by (simp add: save_png_def update_keys)
  qed
  then show ?thesis
    by (auto simp: rewrite_file_def open_image_def split: option.splits disk_file.splits)
qed

lemma listdir_keys: "map fst fs = map fst fs' \<Longrightarrow> listdir d fs = listdir d fs'"
proof (induction fs arbitrary: fs')
  case Nil
  then show ?case by (simp add: listdir_def)
next
  case (Cons e fs)
  then obtain e' fs2 where "fs' = e' # fs2" "fst e = fst e'" "map fst fs = map fst fs2"
    by (cases fs') auto
  with Cons.IH show ?case by (cases e; cases e') (simp add: listdir_def)
qed

lemma listdir_rewrite_file [fs_simps]: "listdir d (rewrite_file p T fs) = listdir d fs"
  by (rule listdir_keys) (simp add: keys_rewrite_file)

lemma distinct_listdir: "distinct (map fst fs) \<Longrightarrow> distinct (listdir d fs)"
proof (induction fs)
  case Nil
  then show ?case by (simp add: listdir_def)
next
  case (Cons e fs)
  obtain q f where e: "e = (q, f)" by (cases e)
  have "snd q \<notin> set (listdir d fs)" if "fst q = d"
  proof
    assume "snd q \<in> set (listdir d fs)"
    then have "q \<in> fst ` set fs" using that by (force simp: listdir_def)
    with Cons.prems e show False by simp
  qed
  with Cons e show ?case by (simp add: listdir_def)
qed

text \<open>A loop whose body rewrites the file it is given, over a list of distinct
  names, rewrites each listed file once, from its original contents, and no other.\<close>

lemma map_of_fold_rewrite_file:
  "distinct gs \<Longrightarrow> map_of (fold (\<lambda>f. rewrite_file (d, f) T) gs fs) q =
     (if fst q = d \<and> snd q \<in> set gs then rewritten T (map_of fs q) else map_of fs q)"
proof (induction gs arbitrary: fs)
  case Nil
  then show ?case by simp
next
  case (Cons g gs)
  then show ?case by (cases q) (auto simp: map_of_rewrite_file)
qed

lemma keys_fold_rewrite_file:
  "map fst (fold (\<lambda>f. rewrite_file (d, f) T) gs fs) = map fst fs"
  by (induction gs arbitrary: fs) (simp_all add: keys_rewrite_file)

lemma files_fold:
  assumes "\<And>f s. files (step f s) = R f (files s)"
  shows "files (fold step gs s) = fold R gs (files s)"
  using assms by (induction gs arbitrary: s) simp_all

lemma final_state_simps [simp]: "final_state (Inl (e, s)) = s" "final_state (Inr s) = s"
  by (simp_all add: final_state_def)

text \<open>Well-formedness of the file system is kept by every write of a well-formed
  image and by every deletion.\<close>

lemma wf_fs_rewrite_file:
  assumes "wf_fs fs" "\<And>img c. wf_image img \<Longrightarrow> T img = Some c \<Longrightarrow> wf_image c"
  shows "wf_fs (rewrite_file p T fs)"
proof (cases "open_image fs p")
  case (Inr img)
  have wi: "wf_image img" using wf_fs_open_image[OF assms(1) Inr] .
  show ?thesis
  proof (cases "T img")
    case (Some c)
    with Inr wf_fs_save_png[OF assms(1) assms(2)[OF wi Some]] show ?thesis
      by (simp add: rewrite_file_def)
  qed (simp add: rewrite_file_def Inr assms(1))
qed (simp add: rewrite_file_def assms(1))

lemma wf_fs_fold_rewrite_file:
  assumes "wf_fs fs" "\<And>img c. wf_image img \<Longrightarrow> T img = Some c \<Longrightarrow> wf_image c"
  shows "wf_fs (fold (\<lambda>f. rewrite_file (d, f) T) gs fs)"
  using assms(1) by (induction gs arbitrary: fs) (simp_all add: wf_fs_rewrite_file assms(2))

lemma set_delete_subset: "set (AList.delete p fs) \<subseteq> set fs"
  by (induction fs) auto

lemma wf_fs_delete: "wf_fs fs \<Longrightarrow> wf_fs (AList.delete p fs)"
  by (induction fs) (auto simp: wf_fs_def dest!: subsetD[OF set_delete_subset])

lemma rewritten_idem:
  assumes "\<And>img c. T img = Some c \<Longrightarrow> T c = Some c"
  shows "rewritten T (rewritten T v) = rewritten T v"
  using assms by (auto simp: rewritten_def split: option.splits disk_file.splits)

lemma final_state_bind_run:
  assumes "P (final_state r)" "\<And>s. P s \<Longrightarrow> P (final_state (k s))"
  shows "P (final_state (bind_run r k))"
  using assms by (cases r) (auto simp: bind_run_def)

lemma console_grows_bind_run:
  assumes r: "console_grows s r A n" and k: "\<And>s'. console_grows s' (k s') B m"
  shows "console_grows s (bind_run r k) (A \<union> (\<lambda>b. n + b) ` B) (n + m)"
proof (cases r)
  case (Inl es)
  then show ?thesis using r by (cases es) (auto simp: console_grows_def)
next
  case (Inr s1)
  with r obtain ms where ms: "console s1 = console s @ ms" "length ms = n"
    by (auto simp: console_grows_def)
  show ?thesis
  proof (cases "k s1")
    case (Inl es)
    then obtain e s2 where es: "k s1 = Inl (e, s2)" by (cases es) auto
    with k[of s1] obtain ms' where "console s2 = console s1 @ ms'" "length ms' \<in> B"
      by (auto simp: console_grows_def)
    with ms es Inr show ?thesis by (auto simp: console_grows_def)
  next
    case (Inr s2)
    with k[of s1] obtain ms' where "console s2 = console s1 @ ms'" "length ms' = m"
      by (auto simp: console_grows_def)
    with ms Inr \<open>r = Inr s1\<close> show ?thesis by (auto simp: console_grows_def)
  qed
qed

lemma console_grows_print: "console_grows s (Inr (print_msg m s)) {} 1"
  by (simp add: console_grows_def print_msg_def)

text \<open>A loop whose body prints exactly one line about the element it handles prints,
  over a list, one line per element, in order.\<close>

lemma console_fold_one_line:
  assumes "\<And>x s. \<exists>m. console (step x s) = console s @ [m] \<and> msg_file m = Some (key x)"
  shows "\<exists>ms. console (fold step xs s) = console s @ ms \<and> map msg_file ms = map (Some \<circ> key) xs"
proof (induction xs arbitrary: s)
  case Nil
  then show ?case by simp
next
  case (Cons x xs)
  obtain m where m: "console (step x s) = console s @ [m]" "msg_file m = Some (key x)"
    using assms by blast
  from Cons.IH[of "step x s"] obtain ms where
    "console (fold step xs (step x s)) = console (step x s) @ ms" "map msg_file ms = map (Some \<circ> key) xs"
    by blast
  with m show ?case by (intro exI[of _ "m # ms"]) simp
qed

end
