(* ===== verification/Frames.thy ===== *)
theory Frames
  imports Os
begin

text \<open>
  The two scripts that cut the first frame out of a sprite sheet and save it as an
  avatar: \<open>crop_sprite.py\<close> (a fixed 100 x 100 box of the Soldier and Orc idle
  sheets) and \<open>prepare_knight_sprites.py\<close> (the first of F equal-width frames of
  four Knight sheets, \<open>width // F\<close> columns wide). Neither has a \<open>try\<close>: each
  statement runs only if the previous one raised nothing, so the scripts are
  sequences of \<open>bind_run\<close> steps, and an exception ends the script with the
  files saved so far.
\<close>

section \<open>Paths\<close>

text \<open>The scripts spell the drive \<open>d:\<close>; the file system is modelled case-sensitively,
  so these paths are kept as written.\<close>

definition asset_folder :: "string list \<Rightarrow> string" where
  "asset_folder xs = win_path ([''d:'', ''QuizBattle'', ''app'', ''src'', ''main'', ''res'', ''drawable''] @ xs)"

definition tiny_rpg :: string where
  "tiny_rpg = ''Tiny RPG Character Asset Pack v1.03 -Free Soldier&Orc''"

definition soldier_sheet :: path where
  "soldier_sheet = (asset_folder [tiny_rpg, ''Characters(100x100)'', ''Soldier'', ''Soldier''], ''Soldier-Idle.png'')"

definition orc_sheet :: path where
  "orc_sheet = (asset_folder [tiny_rpg, ''Characters(100x100)'', ''Orc'', ''Orc''], ''Orc-Idle.png'')"

definition knight_sheet :: "string \<Rightarrow> path" where
  "knight_sheet n = (asset_folder [''knight-character-sprites-pixel-art'', ''Knight_1''], n)"

definition avatar :: "string \<Rightarrow> path" where
  "avatar n = (asset_folder [], n)"

section \<open>Frame boxes and the extraction step\<close>

text \<open>\<open>crop((0, 0, 100, 100))\<close> of \<open>crop_sprite.py\<close>.\<close>

definition fixed_box :: "image \<Rightarrow> int \<times> int \<times> int \<times> int" where
  "fixed_box img = (0, 0, 100, 100)"

text \<open>\<open>frame_width = sheet.width // F\<close>; \<open>crop((0, 0, frame_width, sheet.height))\<close>.\<close>

definition frame_box :: "nat \<Rightarrow> image \<Rightarrow> int \<times> int \<times> int \<times> int" where
  "frame_box F img = (0, 0, int (width img div F), int (height img))"

text \<open>
  One block of either script: open the sheet (\<open>prepare_knight_sprites.py\<close> then
  prints its size), crop, save to \<open>dst\<close>, print the size of the frame.
\<close>

definition extract_frame ::
  "string \<Rightarrow> bool \<Rightarrow> path \<Rightarrow> (image \<Rightarrow> int \<times> int \<times> int \<times> int) \<Rightarrow> path \<Rightarrow> sys \<Rightarrow> error \<times> sys + sys" where
  "extract_frame label show_orig src box dst s =
     (case open_image (files s) src of
        Inl e \<Rightarrow> Inl (e, s)
      | Inr img \<Rightarrow>
          (let s1 = (if show_orig then print_msg (Original label (width img, height img)) s else s) in
           case crop img (box img) of
             Inl e \<Rightarrow> Inl (e, s1)
           | Inr c \<Rightarrow> Inr (print_msg (Saved label (width c, height c))
                             (s1\<lparr>files := save_png dst c (files s1)\<rparr>))))"

section \<open>The scripts\<close>

definition crop_sprite :: "sys \<Rightarrow> error \<times> sys + sys" where
  "crop_sprite s =
     bind_run (extract_frame ''Soldier'' False soldier_sheet fixed_box (avatar ''player_avatar.png'') s)
       (\<lambda>s. bind_run (extract_frame ''Orc'' False orc_sheet fixed_box (avatar ''bot_avatar.png'') s)
       (\<lambda>s. Inr (print_msg (Text ''Sprites cropped successfully!'') s)))"

definition prepare_knight_sprites :: "sys \<Rightarrow> error \<times> sys + sys" where
  "prepare_knight_sprites s =
     bind_run (extract_frame ''Knight Idle'' True (knight_sheet ''Idle.png'') (frame_box 10)
                 (avatar ''player_avatar.png'') s)
       (\<lambda>s. bind_run (extract_frame ''Knight Hurt'' True (knight_sheet ''Hurt.png'') (frame_box 3)
                 (avatar ''player_hurt.png'') s)
       (\<lambda>s. bind_run (extract_frame ''Knight Attack'' True (knight_sheet ''Attack 1.png'') (frame_box 4)
                 (avatar ''player_attack.png'') s)
       (\<lambda>s. bind_run (extract_frame ''Knight Defend'' True (knight_sheet ''Defend.png'') (frame_box 2)
                 (avatar ''player_defend.png'') s)
       (\<lambda>s. Inr (print_msg (Text ''All knight sprites prepared successfully!'') s)))))"

section \<open>Sample sheets\<close>

text \<open>A 6 x 2 sheet of alternating opaque and transparent columns, and a drawable
  folder holding it as every sheet the two scripts read (the Orc sheet missing from
  \<open>knight_only_sys\<close>).\<close>

definition stripe_sheet :: image where
  "stripe_sheet = sample_image
     [[solid, transparent, solid, transparent, solid, transparent],
      [solid, transparent, solid, transparent, solid, transparent]]"

definition knight_only_sys :: sys where
  "knight_only_sys = \<lparr>files =
     [(soldier_sheet, PngFile stripe_sheet),
      (knight_sheet ''Idle.png'', PngFile stripe_sheet), (knight_sheet ''Hurt.png'', PngFile stripe_sheet),
      (knight_sheet ''Attack 1.png'', PngFile stripe_sheet), (knight_sheet ''Defend.png'', PngFile stripe_sheet)],
     console = []\<rparr>"

definition sheets_sys :: sys where
  "sheets_sys = knight_only_sys\<lparr>files := (orc_sheet, PngFile stripe_sheet) # files knight_only_sys\<rparr>"

section \<open>Lemmas\<close>

lemma crop_origin:
  "\<exists>c. crop img (0, 0, int w, int h) = Inr c \<and> mode c = mode img \<and> width c = w \<and> height c = h \<and>
     (\<forall>x y. pixel_at c x y = (if x < w \<and> y < h then pixel_at img x y else transparent))"
proof -
  obtain c where c: "crop img (0, 0, int w, int h) = Inr c"
    using crop_Inr_iff[of img 0 0 "int w" "int h"] by auto
  show ?thesis
    using c crop_fields[OF c] pixel_at_crop[OF c] by (auto simp: pixel_at_int_def)
qed

lemma crop_frame_box_Inr: "\<exists>c. crop img (frame_box F img) = Inr c"
  using crop_origin[of img "width img div F" "height img"] by (auto simp: frame_box_def)

lemma crop_fixed_box_Inr: "\<exists>c. crop img (fixed_box img) = Inr c"
  using crop_origin[of img 100 100] by (auto simp: fixed_box_def)

lemma extract_frame_Inr:
  assumes "open_image (files s) src = Inr img" "crop img (box img) = Inr c"
  shows "\<exists>s'. extract_frame label b src box dst s = Inr s' \<and> files s' = save_png dst c (files s)"
  using assms by (simp add: extract_frame_def Let_def print_msg_files)

lemma extract_frame_open_Inl:
  "open_image (files s) src = Inl e \<Longrightarrow> extract_frame label b src box dst s = Inl (e, s)"
  by (simp add: extract_frame_def)

lemma extract_frame_console:
  assumes "\<And>img. \<exists>c. crop img (box img) = Inr c"
  shows "console_grows s (extract_frame label b src box dst s) {0} (if b then 2 else 1)"
proof (cases "open_image (files s) src")
  case (Inl e)
  then show ?thesis by (simp add: extract_frame_def console_grows_def)
next
  case (Inr img)
  moreover obtain c where "crop img (box img) = Inr c" using assms by blast
  ultimately show ?thesis by (simp add: extract_frame_def console_grows_def Let_def print_msg_def)
qed

lemma avatar_eq_iff [simp]: "avatar n = avatar m \<longleftrightarrow> n = m"
  by (simp add: avatar_def)

lemma sheet_ne_avatar [simp]:
  "knight_sheet n \<noteq> avatar m" "soldier_sheet \<noteq> avatar m" "orc_sheet \<noteq> avatar m"
  by (simp_all add: knight_sheet_def soldier_sheet_def orc_sheet_def avatar_def asset_folder_def)

lemma open_image_save_other:
  "q \<noteq> p \<Longrightarrow> open_image (save_png p im fs) q = open_image fs q"
  by (simp add: open_image_save_png)

text \<open>The file system after each script when every sheet it reads opens.\<close>

lemma crop_sprite_files:
  assumes "open_image (files s) soldier_sheet = Inr a" "open_image (files s) orc_sheet = Inr b"
    "crop a (fixed_box a) = Inr ca" "crop b (fixed_box b) = Inr cb"
  shows "\<exists>s'. crop_sprite s = Inr s' \<and>
    files s' = save_png (avatar ''bot_avatar.png'') cb (save_png (avatar ''player_avatar.png'') ca (files s))"
proof -
  obtain s1 where s1: "extract_frame ''Soldier'' False soldier_sheet fixed_box (avatar ''player_avatar.png'') s = Inr s1"
    and f1: "files s1 = save_png (avatar ''player_avatar.png'') ca (files s)"
    using extract_frame_Inr[where box = fixed_box, OF assms(1,3)] by blast
  have o2: "open_image (files s1) orc_sheet = Inr b"
    using assms(2) by (simp add: f1 open_image_save_other)
  obtain s2 where s2: "extract_frame ''Orc'' False orc_sheet fixed_box (avatar ''bot_avatar.png'') s1 = Inr s2"
    and f2: "files s2 = save_png (avatar ''bot_avatar.png'') cb (files s1)"
    using extract_frame_Inr[where box = fixed_box, OF o2 assms(4)] by blast
  show ?thesis using s1 s2 f1 f2 by (simp add: crop_sprite_def print_msg_files)
qed

lemma prepare_knight_files:
  assumes "open_image (files s) (knight_sheet ''Idle.png'') = Inr i1"
    "open_image (files s) (knight_sheet ''Hurt.png'') = Inr i2"
    "open_image (files s) (knight_sheet ''Attack 1.png'') = Inr i3"
    "open_image (files s) (knight_sheet ''Defend.png'') = Inr i4"
    "crop i1 (frame_box 10 i1) = Inr c1" "crop i2 (frame_box 3 i2) = Inr c2"
    "crop i3 (frame_box 4 i3) = Inr c3" "crop i4 (frame_box 2 i4) = Inr c4"
  shows "\<exists>s'. prepare_knight_sprites s = Inr s' \<and>
    files s' = save_png (avatar ''player_defend.png'') c4 (save_png (avatar ''player_attack.png'') c3
      (save_png (avatar ''player_hurt.png'') c2 (save_png (avatar ''player_avatar.png'') c1 (files s))))"
proof -
  obtain s1 where s1: "extract_frame ''Knight Idle'' True (knight_sheet ''Idle.png'') (frame_box 10)
      (avatar ''player_avatar.png'') s = Inr s1"
    and f1: "files s1 = save_png (avatar ''player_avatar.png'') c1 (files s)"
    using extract_frame_Inr[where box = "frame_box 10", OF assms(1,5)] by blast
  have o2: "open_image (files s1) (knight_sheet ''Hurt.png'') = Inr i2"
    using assms(2) by (simp add: f1 open_image_save_other)
  obtain s2 where s2: "extract_frame ''Knight Hurt'' True (knight_sheet ''Hurt.png'') (frame_box 3)
      (avatar ''player_hurt.png'') s1 = Inr s2"
    and f2: "files s2 = save_png (avatar ''player_hurt.png'') c2 (files s1)"
    using extract_frame_Inr[where box = "frame_box 3", OF o2 assms(6)] by blast
  have o3: "open_image (files s2) (knight_sheet ''Attack 1.png'') = Inr i3"
    using assms(3) by (simp add: f1 f2 open_image_save_other)
  obtain s3 where s3: "extract_frame ''Knight Attack'' True (knight_sheet ''Attack 1.png'') (frame_box 4)
      (avatar ''player_attack.png'') s2 = Inr s3"
    and f3: "files s3 = save_png (avatar ''player_attack.png'') c3 (files s2)"
    using extract_frame_Inr[where box = "frame_box 4", OF o3 assms(7)] by blast
  have o4: "open_image (files s3) (knight_sheet ''Defend.png'') = Inr i4"
    using assms(4) by (simp add: f1 f2 f3 open_image_save_other)
  obtain s4 where s4: "extract_frame ''Knight Defend'' True (knight_sheet ''Defend.png'') (frame_box 2)
      (avatar ''player_defend.png'') s3 = Inr s4"
    and f4: "files s4 = save_png (avatar ''player_defend.png'') c4 (files s3)"
    using extract_frame_Inr[where box = "frame_box 2", OF o4 assms(8)] by blast
  show ?thesis using s1 s2 s3 s4 f1 f2 f3 f4 by (simp add: prepare_knight_sprites_def print_msg_files)
qed

section \<open>Properties of the frame scripts\<close>

text \<open>
  C14: \<open>prepare_knight_sprites.py\<close> cuts the first of \<open>F\<close> frames of a sheet of
  width \<open>W\<close>: columns \<open>[0, W // F)\<close> and every row, pixel for pixel; the crop
  never raises.
\<close>

theorem frame_box_first_frame:
  "\<exists>c. crop img (frame_box F img) = Inr c \<and> mode c = mode img \<and>
     width c = width img div F \<and> height c = height img \<and>
     (\<forall>x y. pixel_at c x y = (if x < width img div F \<and> y < height img then pixel_at img x y else transparent))"
  using crop_origin[of img "width img div F" "height img"] by (simp add: frame_box_def)

text \<open>
  C15: the frame of \<open>crop_sprite.py\<close> is always 100 x 100: the pixels of the sheet
  in that square, and transparent (zero) pixels where the sheet is smaller.
\<close>

theorem fixed_box_zero_fill:
  assumes "wf_image img"
  shows "\<exists>c. crop img (fixed_box img) = Inr c \<and> width c = 100 \<and> height c = 100 \<and>
     (\<forall>x y. pixel_at c x y =
        (if x < 100 \<and> y < 100 \<and> x < width img \<and> y < height img then pixel_at img x y else transparent))"
proof -
  obtain c where c: "crop img (0, 0, int 100, int 100) = Inr c" "width c = 100" "height c = 100"
    and px: "\<forall>x y. pixel_at c x y = (if x < 100 \<and> y < 100 then pixel_at img x y else transparent)"
    using crop_origin[of img 100 100] by blast
  have "pixel_at img x y = transparent" if "\<not> (x < width img \<and> y < height img)" for x y
    using assms that by (auto simp: pixel_at_def wf_image_def)
  then show ?thesis using c px by (auto simp: fixed_box_def)
qed

theorem fixed_box_zero_fill_witness:
  "\<exists>c. crop stripe_sheet (fixed_box stripe_sheet) = Inr c \<and> width c = 100 \<and> height c = 100 \<and>
     pixel_at c 0 0 = solid \<and> pixel_at c 0 2 = transparent \<and> pixel_at c 6 0 = transparent"
proof -
  have wf: "wf_image stripe_sheet" by (simp add: stripe_sheet_def sample_image_def wf_image_def)
  have w: "width stripe_sheet = 6" "height stripe_sheet = 2"
    by (simp_all add: stripe_sheet_def sample_image_def)
  have p: "pixel_at stripe_sheet 0 0 = solid" by (simp add: stripe_sheet_def sample_image_def pixel_at_def)
  from fixed_box_zero_fill[OF wf] w p show ?thesis by auto
qed

text \<open>
  C16: when the four Knight sheets open, \<open>prepare_knight_sprites.py\<close> completes and
  writes exactly four files: \<open>player_avatar.png\<close>, \<open>player_hurt.png\<close>,
  \<open>player_attack.png\<close> and \<open>player_defend.png\<close> hold the first frame of the Idle
  (10 frames), Hurt (3), Attack 1 (4) and Defend (2) sheets.
\<close>

theorem prepare_knight_sprites_frames:
  assumes "open_image (files s) (knight_sheet ''Idle.png'') = Inr i1"
    "open_image (files s) (knight_sheet ''Hurt.png'') = Inr i2"
    "open_image (files s) (knight_sheet ''Attack 1.png'') = Inr i3"
    "open_image (files s) (knight_sheet ''Defend.png'') = Inr i4"
  shows "\<exists>s'. prepare_knight_sprites s = Inr s' \<and>
    open_image (files s') (avatar ''player_avatar.png'') = crop i1 (frame_box 10 i1) \<and>
    open_image (files s') (avatar ''player_hurt.png'') = crop i2 (frame_box 3 i2) \<and>
    open_image (files s') (avatar ''player_attack.png'') = crop i3 (frame_box 4 i3) \<and>
    open_image (files s') (avatar ''player_defend.png'') = crop i4 (frame_box 2 i4) \<and>
    (\<forall>q. q \<notin> avatar ` {''player_avatar.png'', ''player_hurt.png'', ''player_attack.png'', ''player_defend.png''}
       \<longrightarrow> map_of (files s') q = map_of (files s) q)"
proof -
  obtain c1 c2 c3 c4 where c: "crop i1 (frame_box 10 i1) = Inr c1" "crop i2 (frame_box 3 i2) = Inr c2"
    "crop i3 (frame_box 4 i3) = Inr c3" "crop i4 (frame_box 2 i4) = Inr c4"
    using crop_frame_box_Inr by metis
  from prepare_knight_files[OF assms c] obtain s' where r: "prepare_knight_sprites s = Inr s'"
    and f: "files s' = save_png (avatar ''player_defend.png'') c4 (save_png (avatar ''player_attack.png'') c3
      (save_png (avatar ''player_hurt.png'') c2 (save_png (avatar ''player_avatar.png'') c1 (files s))))"
    by blast
  show ?thesis using r c by (simp add: f open_image_save_png map_of_save_png)
qed

theorem prepare_knight_sprites_frames_witness:
  "\<exists>s'. prepare_knight_sprites sheets_sys = Inr s' \<and>
    open_image (files s') (avatar ''player_defend.png'') = crop stripe_sheet (frame_box 2 stripe_sheet) \<and>
    width stripe_sheet div 2 = 3"
proof -
  have o: "open_image (files sheets_sys) (knight_sheet ''Idle.png'') = Inr stripe_sheet"
    "open_image (files sheets_sys) (knight_sheet ''Hurt.png'') = Inr stripe_sheet"
    "open_image (files sheets_sys) (knight_sheet ''Attack 1.png'') = Inr stripe_sheet"
    "open_image (files sheets_sys) (knight_sheet ''Defend.png'') = Inr stripe_sheet"
    by code_simp+
  have w: "width stripe_sheet div 2 = 3" by (simp add: stripe_sheet_def sample_image_def)
  from prepare_knight_sprites_frames[OF o] w show ?thesis by blast
qed

text \<open>
  C17: \<open>crop_sprite.py\<close> is not atomic. When the Soldier sheet opens but the Orc
  sheet does not, the script raises after it has already overwritten
  \<open>player_avatar.png\<close> with the Soldier frame; no other file changes.
\<close>

theorem crop_sprite_partial:
  assumes "open_image (files s) soldier_sheet = Inr a" "open_image (files s) orc_sheet = Inl e"
  shows "\<exists>s'. crop_sprite s = Inl (e, s') \<and>
    open_image (files s') (avatar ''player_avatar.png'') = crop a (fixed_box a) \<and>
    (\<forall>q. q \<noteq> avatar ''player_avatar.png'' \<longrightarrow> map_of (files s') q = map_of (files s) q)"
proof -
  obtain ca where ca: "crop a (fixed_box a) = Inr ca" using crop_fixed_box_Inr by blast
  obtain s1 where s1: "extract_frame ''Soldier'' False soldier_sheet fixed_box (avatar ''player_avatar.png'') s = Inr s1"
    and f1: "files s1 = save_png (avatar ''player_avatar.png'') ca (files s)"
    using extract_frame_Inr[where box = fixed_box, OF assms(1) ca] by blast
  have o2: "open_image (files s1) orc_sheet = Inl e"
    using assms(2) by (simp add: f1 open_image_save_other)
  have "crop_sprite s = Inl (e, s1)"
    using s1 extract_frame_open_Inl[OF o2] by (simp add: crop_sprite_def)
  then show ?thesis using ca by (simp add: f1 open_image_save_png map_of_save_png)
qed

theorem crop_sprite_partial_witness:
  "\<exists>s'. crop_sprite knight_only_sys = Inl (FileNotFound orc_sheet, s') \<and>
    open_image (files s') (avatar ''player_avatar.png'') = crop stripe_sheet (fixed_box stripe_sheet)"
proof -
  have a: "open_image (files knight_only_sys) soldier_sheet = Inr stripe_sheet" by code_simp
  have e: "open_image (files knight_only_sys) orc_sheet = Inl (FileNotFound orc_sheet)" by code_simp
  from crop_sprite_partial[OF a e] show ?thesis by blast
qed

text \<open>
  C18: \<open>crop_sprite.py\<close> and \<open>prepare_knight_sprites.py\<close> both write
  \<open>player_avatar.png\<close>, so its content depends on the order they are run in: the
  later script wins (the Knight Idle frame, or the Soldier frame), while
  \<open>bot_avatar.png\<close> keeps the Orc frame either way.
\<close>

theorem avatar_last_writer:
  assumes "open_image (files s) soldier_sheet = Inr a" "open_image (files s) orc_sheet = Inr b"
    "open_image (files s) (knight_sheet ''Idle.png'') = Inr i1"
    "open_image (files s) (knight_sheet ''Hurt.png'') = Inr i2"
    "open_image (files s) (knight_sheet ''Attack 1.png'') = Inr i3"
    "open_image (files s) (knight_sheet ''Defend.png'') = Inr i4"
  shows "(\<exists>s1 s2. crop_sprite s = Inr s1 \<and> prepare_knight_sprites s1 = Inr s2 \<and>
      open_image (files s2) (avatar ''player_avatar.png'') = crop i1 (frame_box 10 i1) \<and>
      open_image (files s2) (avatar ''bot_avatar.png'') = crop b (fixed_box b)) \<and>
    (\<exists>s1 s2. prepare_knight_sprites s = Inr s1 \<and> crop_sprite s1 = Inr s2 \<and>
      open_image (files s2) (avatar ''player_avatar.png'') = crop a (fixed_box a) \<and>
      open_image (files s2) (avatar ''bot_avatar.png'') = crop b (fixed_box b))"
proof -
  obtain ca cb where c: "crop a (fixed_box a) = Inr ca" "crop b (fixed_box b) = Inr cb"
    using crop_fixed_box_Inr by metis
  obtain c1 c2 c3 c4 where k: "crop i1 (frame_box 10 i1) = Inr c1" "crop i2 (frame_box 3 i2) = Inr c2"
    "crop i3 (frame_box 4 i3) = Inr c3" "crop i4 (frame_box 2 i4) = Inr c4"
    using crop_frame_box_Inr by metis
  have first: "\<exists>s1 s2. crop_sprite s = Inr s1 \<and> prepare_knight_sprites s1 = Inr s2 \<and>
      open_image (files s2) (avatar ''player_avatar.png'') = Inr c1 \<and>
      open_image (files s2) (avatar ''bot_avatar.png'') = Inr cb"
  proof -
    from crop_sprite_files[OF assms(1,2) c] obtain s1 where r1: "crop_sprite s = Inr s1"
      and f1: "files s1 = save_png (avatar ''bot_avatar.png'') cb (save_png (avatar ''player_avatar.png'') ca (files s))"
      by blast
    have o: "open_image (files s1) (knight_sheet ''Idle.png'') = Inr i1"
      "open_image (files s1) (knight_sheet ''Hurt.png'') = Inr i2"
      "open_image (files s1) (knight_sheet ''Attack 1.png'') = Inr i3"
      "open_image (files s1) (knight_sheet ''Defend.png'') = Inr i4"
      using assms(3-6) by (simp_all add: f1 open_image_save_other)
    from prepare_knight_files[OF o k] obtain s2 where "prepare_knight_sprites s1 = Inr s2"
      and "files s2 = save_png (avatar ''player_defend.png'') c4 (save_png (avatar ''player_attack.png'') c3
        (save_png (avatar ''player_hurt.png'') c2 (save_png (avatar ''player_avatar.png'') c1 (files s1))))"
      by blast
    with r1 f1 show ?thesis by (simp add: open_image_save_png)
  qed
  have second: "\<exists>s1 s2. prepare_knight_sprites s = Inr s1 \<and> crop_sprite s1 = Inr s2 \<and>
      open_image (files s2) (avatar ''player_avatar.png'') = Inr ca \<and>
      open_image (files s2) (avatar ''bot_avatar.png'') = Inr cb"
  proof -
    from prepare_knight_files[OF assms(3-6) k] obtain s1 where r1: "prepare_knight_sprites s = Inr s1"
      and f1: "files s1 = save_png (avatar ''player_defend.png'') c4 (save_png (avatar ''player_attack.png'') c3
        (save_png (avatar ''player_hurt.png'') c2 (save_png (avatar ''player_avatar.png'') c1 (files s))))"
      by blast
    have o: "open_image (files s1) soldier_sheet = Inr a" "open_image (files s1) orc_sheet = Inr b"
      using assms(1,2) by (simp_all add: f1 open_image_save_other)
    from crop_sprite_files[OF o c] obtain s2 where "crop_sprite s1 = Inr s2"
      and "files s2 = save_png (avatar ''bot_avatar.png'') cb (save_png (avatar ''player_avatar.png'') ca (files s1))"
      by blast
    with r1 show ?thesis by (simp add: open_image_save_png)
  qed
  from first second show ?thesis by (simp only: c k)
qed

theorem avatar_last_writer_witness:
  "\<exists>s1 s2. crop_sprite sheets_sys = Inr s1 \<and> prepare_knight_sprites s1 = Inr s2 \<and>
      open_image (files s2) (avatar ''player_avatar.png'') = crop stripe_sheet (frame_box 10 stripe_sheet)"
proof -
  have o: "open_image (files sheets_sys) soldier_sheet = Inr stripe_sheet"
    "open_image (files sheets_sys) orc_sheet = Inr stripe_sheet"
    "open_image (files sheets_sys) (knight_sheet ''Idle.png'') = Inr stripe_sheet"
    "open_image (files sheets_sys) (knight_sheet ''Hurt.png'') = Inr stripe_sheet"
    "open_image (files sheets_sys) (knight_sheet ''Attack 1.png'') = Inr stripe_sheet"
    "open_image (files sheets_sys) (knight_sheet ''Defend.png'') = Inr stripe_sheet"
    by code_simp+
  from avatar_last_writer[OF o] show ?thesis by blast
qed

text \<open>
  C33: neither frame script has a \<open>try\<close>, but its crops never raise, so an
  exception (a sheet that does not open) stops the script between two of its
  blocks: \<open>crop_sprite.py\<close> has printed none or one of its two size lines, and
  \<open>prepare_knight_sprites.py\<close> an even number of lines below eight (each block
  prints the original size and then the saved size); a run that returns has
  printed every line, three and nine.
\<close>

theorem frame_scripts_console:
  "console_grows s (crop_sprite s) {0, 1} 3 \<and> console_grows s (prepare_knight_sprites s) {0, 2, 4, 6} 9"
proof -
  have c: "console_grows s (crop_sprite s) ({0} \<union> (\<lambda>b. 1 + b) ` ({0} \<union> (\<lambda>b. 1 + b) ` {})) (1 + (1 + 1))"
  proof -
    have f: "console_grows s' (extract_frame l False src fixed_box dst s') {0} 1" for s' l src dst
      using extract_frame_console[OF crop_fixed_box_Inr, where b = False] by simp
    show ?thesis unfolding crop_sprite_def by (intro console_grows_bind_run f console_grows_print)
  qed
  have k: "console_grows s (prepare_knight_sprites s)
      ({0} \<union> (\<lambda>b. 2 + b) ` ({0} \<union> (\<lambda>b. 2 + b) ` ({0} \<union> (\<lambda>b. 2 + b) ` ({0} \<union> (\<lambda>b. 2 + b) ` {}))))
      (2 + (2 + (2 + (2 + 1))))"
  proof -
    have f: "console_grows s' (extract_frame l True src (frame_box F) dst s') {0} 2" for s' l src F dst
      using extract_frame_console[OF crop_frame_box_Inr, where b = True] by simp
    show ?thesis unfolding prepare_knight_sprites_def by (intro console_grows_bind_run f console_grows_print)
  qed
  have e1: "({0} \<union> (\<lambda>b. 1 + b) ` ({0} \<union> (\<lambda>b. 1 + b) ` {})) = ({0, 1} :: nat set)" by auto
  have e2: "({0} \<union> (\<lambda>b. 2 + b) ` ({0} \<union> (\<lambda>b. 2 + b) ` ({0} \<union> (\<lambda>b. 2 + b) ` ({0} \<union> (\<lambda>b. 2 + b) ` {}))))
      = ({0, 2, 4, 6} :: nat set)" by auto
  have n: "(1 + (1 + 1) :: nat) = 3" "(2 + (2 + (2 + (2 + 1))) :: nat) = 9" by simp_all
  from c k show ?thesis unfolding e1 e2 n by (rule conjI)
qed

end
