(* ===== verification/CropGoblin.thy ===== *)
theory CropGoblin
  imports Os
begin

text \<open>
  The two scripts that crop the goblin sprites in place: \<open>crop_goblin_sprites.py\<close>
  finds the content bounds with its own pixel loop, pads them by 2 pixels and crops;
  \<open>crop_goblin_tight.py\<close> crops to \<open>Image.getbbox()\<close> with no padding. Both
  enumerate the goblin files of the drawable folder and run the same
  open / convert / crop / save step on each inside a \<open>try\<close>.
\<close>

section \<open>Shared: the goblin files\<close>

definition drawable_folder :: string where
  "drawable_folder = win_path [''D:'', ''QuizBattle'', ''app'', ''src'', ''main'', ''res'', ''drawable'']"

definition is_goblin_file :: "string \<Rightarrow> bool" where
  "is_goblin_file f \<longleftrightarrow> startswith f ''goblin_'' \<and> endswith f ''.png''"

definition goblin_files :: "fs \<Rightarrow> string list" where
  "goblin_files fs = filter is_goblin_file (listdir drawable_folder fs)"

text \<open>\<open>if img.mode != 'RGBA': img = img.convert('RGBA')\<close>\<close>

definition to_rgba :: "image \<Rightarrow> image" where
  "to_rgba img = (if mode img \<noteq> RGBA then convert_rgba img else img)"

text \<open>
  The body of the per-file loop of both scripts: open, transform (\<open>None\<close> is the
  "no content" branch), save back over the same path and print; any exception is
  printed and the loop goes on.
\<close>

definition crop_in_place :: "(image \<Rightarrow> (error + image) option) \<Rightarrow> string \<Rightarrow> sys \<Rightarrow> sys" where
  "crop_in_place tf f s =
     (let p = (drawable_folder, f) in
      case open_image (files s) p of
        Inl e \<Rightarrow> print_msg (Failed f e) s
      | Inr img \<Rightarrow>
          (case tf img of
             None \<Rightarrow> print_msg (Skipped f) s
           | Some (Inl e) \<Rightarrow> print_msg (Failed f e) s
           | Some (Inr c) \<Rightarrow>
               print_msg (Processed f (width img, height img) (width c, height c))
                 (s\<lparr>files := save_png p c (files s)\<rparr>)))"

text \<open>The image a per-file transformation leaves in the file, if it saves one.\<close>

definition saved :: "(image \<Rightarrow> (error + image) option) \<Rightarrow> image \<Rightarrow> image option" where
  "saved tf img = (case tf img of Some (Inr c) \<Rightarrow> Some c | _ \<Rightarrow> None)"

section \<open>crop\_goblin\_sprites.py\<close>

text \<open>Lines 28--38: the content bounds, scanned row by row.\<close>

definition scan_step :: "image \<Rightarrow> nat \<times> nat \<Rightarrow> nat \<times> nat \<times> nat \<times> nat \<Rightarrow> nat \<times> nat \<times> nat \<times> nat" where
  "scan_step img p b =
     (case p of (x, y) \<Rightarrow> case b of (min_x, min_y, max_x, max_y) \<Rightarrow>
        if 0 < alpha (pixel_at img x y)
        then (min min_x x, min min_y y, max max_x x, max max_y y) else b)"

definition content_bounds :: "image \<Rightarrow> nat \<times> nat \<times> nat \<times> nat" where
  "content_bounds img =
     fold (\<lambda>y. fold (\<lambda>x. scan_step img (x, y)) [0..<width img]) [0..<height img]
       (width img, height img, 0, 0)"

text \<open>Lines 43--50: the padded crop box (Python integers, clamped to the image).\<close>

definition padding :: nat where
  "padding = 2"

definition padded_box :: "image \<Rightarrow> nat \<times> nat \<times> nat \<times> nat \<Rightarrow> int \<times> int \<times> int \<times> int" where
  "padded_box img b =
     (case b of (min_x, min_y, max_x, max_y) \<Rightarrow>
        let min_x' = max 0 (int min_x - int padding);
            min_y' = max 0 (int min_y - int padding);
            max_x' = min (int (width img) - 1) (int max_x + int padding);
            max_y' = min (int (height img) - 1) (int max_y + int padding)
        in (min_x', min_y', max_x' + 1, max_y' + 1))"

text \<open>Lines 20--50: convert, scan, and crop if the guard of line 41 holds.\<close>

definition pad_crop :: "image \<Rightarrow> (error + image) option" where
  "pad_crop img0 =
     (let img = to_rgba img0 in
      case content_bounds img of (min_x, min_y, max_x, max_y) \<Rightarrow>
        if max_x > min_x \<and> max_y > min_y
        then Some (crop img (padded_box img (min_x, min_y, max_x, max_y)))
        else None)"

definition crop_goblin_sprites :: "sys \<Rightarrow> sys" where
  "crop_goblin_sprites s =
     (let gs = goblin_files (files s) in
      print_msg DoneMsg (fold (crop_in_place pad_crop) gs (print_msg (Found (length gs)) s)))"

section \<open>crop\_goblin\_tight.py\<close>

text \<open>Lines 22--30: convert, \<open>getbbox\<close>, crop to it.\<close>

definition tight_crop :: "image \<Rightarrow> (error + image) option" where
  "tight_crop img0 =
     (let img = to_rgba img0 in
      case getbbox img of None \<Rightarrow> None | Some bb \<Rightarrow> Some (crop img bb))"

definition crop_goblin_tight :: "sys \<Rightarrow> sys" where
  "crop_goblin_tight s =
     (let gs = goblin_files (files s) in
      print_msg DoneMsg
        (fold (crop_in_place tight_crop) gs
          (print_msg (Text ''Cropping ALL transparent pixels (including bottom)...'')
            (print_msg (Found (length gs)) s))))"

section \<open>Sample sprites\<close>

definition sprite_block :: image where
  "sprite_block = sample_image
     [[transparent, transparent, transparent, transparent],
      [transparent, solid, solid, transparent],
      [transparent, solid, solid, transparent],
      [transparent, transparent, transparent, transparent]]"

definition sprite_column :: image where
  "sprite_column = sample_image
     [[transparent, solid, transparent],
      [transparent, solid, transparent],
      [transparent, solid, transparent]]"

text \<open>A drawable folder with a goblin sprite with a margin, an empty goblin sprite
  and another file.\<close>

definition crop_demo_sys :: sys where
  "crop_demo_sys = \<lparr>files =
     [((drawable_folder, ''goblin_idle_0001.png''), PngFile sprite_block),
      ((drawable_folder, ''goblin_run_0001.png''), PngFile (sample_image [[transparent]])),
      ((drawable_folder, ''player_avatar.png''), PngFile sprite_column)],
     console = []\<rparr>"

text \<open>The same folder with a goblin file that does not decode.\<close>

definition crop_bad_sys :: sys where
  "crop_bad_sys = crop_demo_sys\<lparr>files :=
     files crop_demo_sys @ [((drawable_folder, ''goblin_hit_0001.png''), Unreadable)]\<rparr>"

section \<open>Lemmas: the content scan\<close>

lemma to_rgba_fields [image_simps]:
  "mode (to_rgba img) = RGBA" "width (to_rgba img) = width img"
  "height (to_rgba img) = height img"
  by (simp_all add: to_rgba_def image_simps)

lemma wf_to_rgba [image_simps]: "wf_image img \<Longrightarrow> wf_image (to_rgba img)"
  by (simp add: to_rgba_def wf_convert_rgba)

lemma content_bounds_fold:
  assumes "mode img = RGBA"
  shows "content_bounds img =
    fold (\<lambda>(x, y) (a, b, c, d). (min a x, min b y, max c x, max d y)) (content_points img)
      (width img, height img, 0, 0)"
proof -
  have step: "scan_step img = (\<lambda>p s. if (\<lambda>(x, y). is_content (mode img) (pixel_at img x y)) p
      then (\<lambda>(x, y) (a, b, c, d). (min a x, min b y, max c x, max d y)) p s else s)"
    using assms by (auto simp: scan_step_def is_content_def word_neq_0_conv fun_eq_iff)
  have "content_bounds img = fold (scan_step img) (raster (width img) (height img))
      (width img, height img, 0, 0)"
    by (simp only: content_bounds_def fold_nested_upt raster_def)
  also have "\<dots> = fold (\<lambda>(x, y) (a, b, c, d). (min a x, min b y, max c x, max d y))
      (content_points img) (width img, height img, 0, 0)"
    by (simp only: step fold_filter_step content_points_def)
  finally show ?thesis .
qed

lemma content_bounds_rgba:
  assumes "mode img = RGBA"
  shows "content_bounds img =
    (case getbbox img of None \<Rightarrow> (width img, height img, 0, 0)
     | Some (l, t, r, b) \<Rightarrow> (nat l, nat t, nat (r - 1), nat (b - 1)))"
proof (cases "content_points img = []")
  case True
  then show ?thesis using assms by (simp add: content_bounds_fold getbbox_def)
next
  case False
  let ?P = "set (content_points img)"
  have fin: "finite (fst ` ?P)" "finite (snd ` ?P)" and ne: "fst ` ?P \<noteq> {}" "snd ` ?P \<noteq> {}"
    using False by simp_all
  have "Min (fst ` ?P) \<in> fst ` ?P" "Min (snd ` ?P) \<in> snd ` ?P"
    using fin ne by (simp_all add: Min_in)
  then have lt: "Min (fst ` ?P) \<le> width img" "Min (snd ` ?P) \<le> height img"
    by (auto simp: set_content_points)
  have "content_bounds img =
      (Min (fst ` ?P), Min (snd ` ?P), Max (fst ` ?P), Max (snd ` ?P))"
    using assms fin ne lt
    by (simp add: content_bounds_fold fold_bounds4 Min_insert_absorb Max_insert_absorb)
  with False show ?thesis by (simp add: getbbox_def Let_def)
qed

text \<open>
  C3: the pixel loop of \<open>crop_goblin_sprites.py\<close> (lines 28--38) computes what
  \<open>Image.getbbox()\<close> returns, with inclusive upper bounds, and leaves its
  initial values \<open>(width, height, 0, 0)\<close> when there is no content.
\<close>

lemma content_bounds_getbbox:
  "content_bounds (to_rgba img) =
     (case getbbox (to_rgba img) of None \<Rightarrow> (width img, height img, 0, 0)
      | Some (l, t, r, b) \<Rightarrow> (nat l, nat t, nat (r - 1), nat (b - 1)))"
  using content_bounds_rgba[of "to_rgba img"] by (simp only: to_rgba_fields simp_thms)

section \<open>Lemmas: the padded crop\<close>

lemma pixel_at_crop_inside:
  assumes "crop im (l, t, r, b) = Inr c" "0 \<le> l" "0 \<le> t" "x < width c" "y < height c"
  shows "pixel_at c x y = pixel_at im (nat l + x) (nat t + y)"
proof -
  have "x < nat (r - l)" "y < nat (b - t)" using assms crop_fields[OF assms(1)] by simp_all
  then show ?thesis using assms(2,3)
    by (simp add: pixel_at_crop[OF assms(1)] pixel_at_int_def nat_add_distrib)
qed

lemma padded_box_getbbox:
  assumes "getbbox img = Some (l, t, r, b)"
  shows "padded_box img (nat l, nat t, nat (r - 1), nat (b - 1)) =
    (max 0 (l - 2), max 0 (t - 2), min (int (width img)) (r + 2), min (int (height img)) (b + 2))"
  using getbbox_in_image[OF assms] by (auto simp: padded_box_def padding_def min_def max_def)

text \<open>
  C4: the guard of line 41, \<open>max_x > min_x and max_y > min_y\<close>, skips an image
  exactly when it has no content or its content is one pixel wide or one pixel
  tall: such a sprite is reported as having no content and left uncropped.
\<close>

theorem pad_crop_None_iff:
  "pad_crop img = None \<longleftrightarrow>
     (case getbbox (to_rgba img) of None \<Rightarrow> True
      | Some (l, t, r, b) \<Rightarrow> r - l = 1 \<or> b - t = 1)"
proof (cases "getbbox (to_rgba img)")
  case None
  then show ?thesis
    by (simp add: pad_crop_def Let_def content_bounds_rgba[OF to_rgba_fields(1)] to_rgba_fields)
next
  case (Some bb)
  obtain l t r b where bb: "bb = (l, t, r, b)" by (cases bb)
  with Some have "0 \<le> l \<and> l < r \<and> 0 \<le> t \<and> t < b"
    using getbbox_in_image by blast
  with Some bb show ?thesis
    by (auto simp: pad_crop_def Let_def content_bounds_rgba[OF to_rgba_fields(1)] to_rgba_fields)
qed

text \<open>The sprite \<open>sprite_column\<close>, a one-pixel-wide vertical line, has content
  but is skipped as having none.\<close>

theorem pad_crop_None_iff_witness:
  "getbbox (to_rgba sprite_column) = Some (1, 0, 2, 3) \<and> pad_crop sprite_column = None"
proof -
  have bb: "getbbox (to_rgba sprite_column) = Some (1, 0, 2, 3)" by code_simp
  with pad_crop_None_iff[of sprite_column] show ?thesis by simp
qed

section \<open>Lemmas: the tight crop\<close>

lemma tight_crop_Some:
  assumes "tight_crop img = Some res"
  obtains l t r b c where "getbbox (to_rgba img) = Some (l, t, r, b)"
    "crop (to_rgba img) (l, t, r, b) = Inr c" "res = Inr c"
proof -
  obtain l t r b where bb: "getbbox (to_rgba img) = Some (l, t, r, b)"
    and res: "res = crop (to_rgba img) (l, t, r, b)"
    using assms by (auto simp: tight_crop_def Let_def split: option.splits)
  have "l \<le> r \<and> t \<le> b" using getbbox_in_image[OF bb] by simp
  then obtain c where "crop (to_rgba img) (l, t, r, b) = Inr c"
    using crop_Inr_iff by blast
  with bb res that show ?thesis by simp
qed

text \<open>Cropping an RGBA image to any window that contains its bounding box keeps
  every content pixel, shifted by the window's corner, and shifts the box.\<close>

lemma window_crop_content:
  assumes bb: "getbbox I = Some (l, t, r, b)" and m: "mode I = RGBA"
    and w: "0 \<le> x0" "x0 \<le> l" "r \<le> x1" "x1 \<le> int (width I)"
           "0 \<le> y0" "y0 \<le> t" "b \<le> y1" "y1 \<le> int (height I)"
    and c: "crop I (x0, y0, x1, y1) = Inr c"
  shows "set (content_points c) = (\<lambda>(x, y). (x - nat x0, y - nat y0)) ` set (content_points I)"
    (is "?C = ?S")
proof -
  have box: "l < r \<and> t < b" using getbbox_in_image[OF bb] by simp
  have fc: "mode c = RGBA" "width c = nat (x1 - x0)" "height c = nat (y1 - y0)"
    using crop_fields[OF c] m by simp_all
  show ?thesis
  proof
    show "?C \<subseteq> ?S"
    proof clarify
      fix x y assume "(x, y) \<in> ?C"
      then have xy: "x < nat (x1 - x0)" "y < nat (y1 - y0)" "is_content RGBA (pixel_at c x y)"
        using fc by (simp_all add: set_content_points)
      moreover have "nat x0 + x < width I" "nat y0 + y < height I"
        using w xy(1,2) by arith+
      ultimately have "(nat x0 + x, nat y0 + y) \<in> set (content_points I)"
        using m w pixel_at_crop_inside[OF c w(1) w(5), of x y] fc
        by (simp add: set_content_points)
      then show "(x, y) \<in> ?S" by force
    qed
  next
    show "?S \<subseteq> ?C"
    proof clarify
      fix x y assume "(x, y) \<in> set (content_points I)"
      then have xy: "x < width I" "y < height I" "is_content RGBA (pixel_at I x y)"
        using m by (simp_all add: set_content_points)
      then have in_box: "l \<le> int x \<and> int x < r \<and> t \<le> int y \<and> int y < b"
        using getbbox_contains[OF bb, of x y] m by simp
      have "x - nat x0 < width c" "y - nat y0 < height c" using in_box w fc by arith+
      moreover have "nat x0 + (x - nat x0) = x" "nat y0 + (y - nat y0) = y"
        using in_box w by arith+
      moreover have "pixel_at c (x - nat x0) (y - nat y0) = pixel_at I x y"
        using calculation by (simp add: pixel_at_crop_inside[OF c w(1) w(5)])
      ultimately show "(x - nat x0, y - nat y0) \<in> ?C"
        using xy fc by (simp add: set_content_points)
    qed
  qed
qed

lemma getbbox_window_crop:
  assumes bb: "getbbox I = Some (l, t, r, b)" and m: "mode I = RGBA"
    and w: "0 \<le> x0" "x0 \<le> l" "r \<le> x1" "x1 \<le> int (width I)"
           "0 \<le> y0" "y0 \<le> t" "b \<le> y1" "y1 \<le> int (height I)"
    and c: "crop I (x0, y0, x1, y1) = Inr c"
  shows "getbbox c = Some (l - x0, t - y0, r - x0, b - y0)"
proof -
  obtain P where P: "P = set (content_points I)" "finite P" "P \<noteq> {}"
    "l = int (Min (fst ` P))" "t = int (Min (snd ` P))"
    "r = int (Max (fst ` P)) + 1" "b = int (Max (snd ` P)) + 1"
    using bb by (rule getbbox_SomeE)
  have C: "set (content_points c) = (\<lambda>(x, y). (x - nat x0, y - nat y0)) ` P"
    using window_crop_content[OF bb m w c] P(1) by simp
  have fst_C: "fst ` set (content_points c) = (\<lambda>x. x - nat x0) ` fst ` P"
    and snd_C: "snd ` set (content_points c) = (\<lambda>y. y - nat y0) ` snd ` P"
    unfolding C by force+
  have "Min (fst ` P) \<le> Max (fst ` P)" "Min (snd ` P) \<le> Max (snd ` P)"
    using P(2,3) by (auto intro!: Min_le Max_in)
  then have mm: "nat x0 \<le> Min (fst ` P)" "nat x0 \<le> Max (fst ` P)"
    "nat y0 \<le> Min (snd ` P)" "nat y0 \<le> Max (snd ` P)"
    using w(1,2,5,6) P(4,5) by linarith+
  have "content_points c \<noteq> []" using C P(3) by auto
  then show ?thesis
    using P(2-7) mm w(1,5)
    by (simp add: getbbox_def Let_def fst_C snd_C Min_diff_image Max_diff_image of_nat_diff)
qed

lemma tight_crop_content:
  assumes "getbbox (to_rgba img) = Some (l, t, r, b)"
    and c: "crop (to_rgba img) (l, t, r, b) = Inr c"
  shows "set (content_points c) =
           (\<lambda>(x, y). (x - nat l, y - nat t)) ` set (content_points (to_rgba img))"
  using getbbox_in_image[OF assms(1)]
  by (intro window_crop_content[OF assms(1) to_rgba_fields(1) _ _ _ _ _ _ _ _ c]) simp_all

lemma getbbox_tight_result:
  assumes bb: "getbbox (to_rgba img) = Some (l, t, r, b)"
    and c: "crop (to_rgba img) (l, t, r, b) = Inr c"
  shows "getbbox c = Some (0, 0, int (width c), int (height c))"
proof -
  have box: "0 \<le> l \<and> l < r \<and> r \<le> int (width (to_rgba img)) \<and> 0 \<le> t \<and> t < b \<and> b \<le> int (height (to_rgba img))"
    using getbbox_in_image[OF bb] .
  then have "getbbox c = Some (l - l, t - t, r - l, b - t)"
    by (intro getbbox_window_crop[OF bb to_rgba_fields(1) _ _ _ _ _ _ _ _ c]) simp_all
  then show ?thesis using crop_fields[OF c] box by simp
qed

lemma crop_full:
  assumes "wf_image c"
  shows "crop c (0, 0, int (width c), int (height c)) = Inr c"
proof -
  obtain c' where c': "crop c (0, 0, int (width c), int (height c)) = Inr c'"
    using crop_Inr_iff by fastforce
  have "c' = c"
  proof (rule image_eqI)
    show "wf_image c'" "wf_image c" using crop_fields[OF c'] assms by simp_all
    show "mode c' = mode c" "width c' = width c" "height c' = height c"
      using crop_fields[OF c'] by simp_all
  next
    fix x y assume "x < width c'" "y < height c'"
    then show "pixel_at c' x y = pixel_at c x y"
      using crop_fields[OF c'] by (simp add: pixel_at_crop_inside[OF c'])
  qed
  with c' show ?thesis by simp
qed

section \<open>Properties of the two croppers\<close>

text \<open>
  C5: the crop of \<open>crop_goblin_sprites.py\<close> (lines 43--50) is the bounding box widened
  by 2 pixels on each side and clamped to the image; the cropped image is exactly
  that window of the converted sprite, so no content pixel is lost.
\<close>

theorem pad_crop_window:
  assumes "getbbox (to_rgba img) = Some (l, t, r, b)" and "pad_crop img = Some res"
  shows "\<exists>c. res = Inr c \<and>
    width c = nat (min (int (width img)) (r + 2) - max 0 (l - 2)) \<and>
    height c = nat (min (int (height img)) (b + 2) - max 0 (t - 2)) \<and>
    (\<forall>x < width c. \<forall>y < height c.
       pixel_at c x y = pixel_at (to_rgba img) (nat (max 0 (l - 2)) + x) (nat (max 0 (t - 2)) + y))"
proof -
  have box: "0 \<le> l \<and> l < r \<and> r \<le> int (width img) \<and> 0 \<le> t \<and> t < b \<and> b \<le> int (height img)"
    using getbbox_in_image[OF assms(1)] by (simp add: to_rgba_fields)
  have pb: "padded_box (to_rgba img) (nat l, nat t, nat (r - 1), nat (b - 1)) =
    (max 0 (l - 2), max 0 (t - 2), min (int (width img)) (r + 2), min (int (height img)) (b + 2))"
    using padded_box_getbbox[OF assms(1)] by (simp add: to_rgba_fields)
  have res: "res = crop (to_rgba img)
      (max 0 (l - 2), max 0 (t - 2), min (int (width img)) (r + 2), min (int (height img)) (b + 2))"
    using assms pb
    by (auto simp: pad_crop_def Let_def content_bounds_rgba[OF to_rgba_fields(1)] to_rgba_fields
             split: if_splits)
  obtain c where c: "crop (to_rgba img)
      (max 0 (l - 2), max 0 (t - 2), min (int (width img)) (r + 2), min (int (height img)) (b + 2))
      = Inr c"
    using box crop_Inr_iff by fastforce
  show ?thesis
    using c res crop_fields[OF c] pixel_at_crop_inside[OF c] by auto
qed

theorem pad_crop_window_witness:
  "getbbox (to_rgba sprite_block) = Some (1, 1, 3, 3) \<and>
   pad_crop sprite_block = Some (crop (to_rgba sprite_block) (0, 0, 4, 4)) \<and>
   (\<exists>c. crop (to_rgba sprite_block) (0, 0, 4, 4) = Inr c \<and> width c = 4 \<and> height c = 4)"
proof -
  have h1: "getbbox (to_rgba sprite_block) = Some (1, 1, 3, 3)" by code_simp
  have h2: "pad_crop sprite_block = Some (crop (to_rgba sprite_block) (0, 0, 4, 4))" by code_simp
  have w: "width sprite_block = 4" "height sprite_block = 4"
    by (simp_all add: sprite_block_def sample_image_def)
  show ?thesis using pad_crop_window[OF h1 h2] h1 h2 w by auto
qed

text \<open>
  C6: \<open>crop_goblin_tight.py\<close> skips exactly the images without content, and its
  crop never raises: the box \<open>getbbox\<close> returns is never reversed.
\<close>

theorem tight_crop_outcome:
  "(tight_crop img = None \<longleftrightarrow> getbbox (to_rgba img) = None) \<and>
   (\<forall>e. tight_crop img \<noteq> Some (Inl e))"
proof -
  have "tight_crop img \<noteq> Some (Inl e)" for e
  proof
    assume "tight_crop img = Some (Inl e)"
    then show False by (rule tight_crop_Some) simp
  qed
  then show ?thesis by (auto simp: tight_crop_def Let_def split: option.splits)
qed

text \<open>
  C1: the tight crop keeps every content pixel, with its colour and alpha, shifted by
  the box's corner, adds none, and each of its four edges holds a content pixel.
\<close>

theorem tight_crop_exact:
  assumes "getbbox (to_rgba img) = Some (l, t, r, b)" and "tight_crop img = Some (Inr c)"
  shows "(\<forall>x < width c. \<forall>y < height c. pixel_at c x y = pixel_at (to_rgba img) (nat l + x) (nat t + y)) \<and>
    set (content_points c) = (\<lambda>(x, y). (x - nat l, y - nat t)) ` set (content_points (to_rgba img)) \<and>
    (\<exists>y. (0, y) \<in> set (content_points c)) \<and> (\<exists>y. (width c - 1, y) \<in> set (content_points c)) \<and>
    (\<exists>x. (x, 0) \<in> set (content_points c)) \<and> (\<exists>x. (x, height c - 1) \<in> set (content_points c))"
proof -
  have cr: "crop (to_rgba img) (l, t, r, b) = Inr c"
    using assms by (simp add: tight_crop_def Let_def)
  have box: "0 \<le> l \<and> 0 \<le> t"
    using getbbox_in_image[OF assms(1)] by simp
  have bc: "getbbox c = Some (0, 0, int (width c), int (height c))"
    by (rule getbbox_tight_result[OF assms(1) cr])
  have "nat (int (width c) - 1) = width c - 1" "nat (int (height c) - 1) = height c - 1"
    by simp_all
  then show ?thesis
    using pixel_at_crop_inside[OF cr] box tight_crop_content[OF assms(1) cr]
      getbbox_edges[OF bc] by auto
qed

theorem tight_crop_exact_witness:
  "getbbox (to_rgba sprite_block) = Some (1, 1, 3, 3) \<and>
   tight_crop sprite_block = Some (Inr (sample_image [[solid, solid], [solid, solid]])) \<and>
   (\<exists>x. (x, 1) \<in> set (content_points (sample_image [[solid, solid], [solid, solid]])))"
proof -
  have h1: "getbbox (to_rgba sprite_block) = Some (1, 1, 3, 3)" by code_simp
  have h2: "tight_crop sprite_block = Some (Inr (sample_image [[solid, solid], [solid, solid]]))"
    by code_simp
  have "height (sample_image [[solid, solid], [solid, solid]]) - 1 = 1"
    by (simp add: sample_image_def)
  then show ?thesis using tight_crop_exact[OF h1 h2] h1 h2 by metis
qed

lemma tight_crop_fixpoint:
  assumes "tight_crop img = Some (Inr c)"
  shows "tight_crop c = Some (Inr c)"
proof -
  obtain l t r b c' where bb: "getbbox (to_rgba img) = Some (l, t, r, b)"
    and cr: "crop (to_rgba img) (l, t, r, b) = Inr c'" and eq: "Inr c = (Inr c' :: error + image)"
    using assms by (rule tight_crop_Some)
  from eq have cr': "crop (to_rgba img) (l, t, r, b) = Inr c" using cr by simp
  have "mode c = RGBA" using crop_fields(1)[OF cr'] by (simp only: to_rgba_fields)
  then have m: "to_rgba c = c" by (simp add: to_rgba_def)
  have "getbbox c = Some (0, 0, int (width c), int (height c))"
    by (rule getbbox_tight_result[OF bb cr'])
  moreover have "crop c (0, 0, int (width c), int (height c)) = Inr c"
    using crop_fields[OF cr'] by (intro crop_full) simp
  ultimately show ?thesis by (simp add: tight_crop_def m)
qed

text \<open>C2: running the tight crop on its own output changes nothing: the spec's
  idempotence property of \<open>crop_goblin_tight.py\<close>, for one image.\<close>

theorem tight_crop_idempotent:
  assumes "tight_crop img = Some (Inr c)"
  shows "tight_crop c = Some (Inr c)"
  using assms by (rule tight_crop_fixpoint)

theorem tight_crop_idempotent_witness:
  "tight_crop sprite_block = Some (Inr (sample_image [[solid, solid], [solid, solid]])) \<and>
   tight_crop (sample_image [[solid, solid], [solid, solid]]) =
     Some (Inr (sample_image [[solid, solid], [solid, solid]]))"
proof -
  have h: "tight_crop sprite_block = Some (Inr (sample_image [[solid, solid], [solid, solid]]))"
    by code_simp
  show ?thesis using tight_crop_idempotent[OF h] h by simp
qed

section \<open>The padded crop is a fixpoint\<close>

lemma pad_crop_Some:
  assumes "pad_crop img = Some res"
  obtains l t r b where "getbbox (to_rgba img) = Some (l, t, r, b)" "l + 1 < r" "t + 1 < b"
    "res = crop (to_rgba img)
       (max 0 (l - 2), max 0 (t - 2), min (int (width img)) (r + 2), min (int (height img)) (b + 2))"
proof (cases "getbbox (to_rgba img)")
  case None
  then show ?thesis using assms
    by (simp add: pad_crop_def Let_def content_bounds_rgba[OF to_rgba_fields(1)] to_rgba_fields)
next
  case (Some bb)
  then obtain l t r b where bb: "getbbox (to_rgba img) = Some (l, t, r, b)" by (cases bb) auto
  have box: "0 \<le> l \<and> l < r \<and> 0 \<le> t \<and> t < b"
    using getbbox_in_image[OF bb] by simp
  have pb: "padded_box (to_rgba img) (nat l, nat t, nat (r - 1), nat (b - 1)) =
    (max 0 (l - 2), max 0 (t - 2), min (int (width img)) (r + 2), min (int (height img)) (b + 2))"
    using padded_box_getbbox[OF bb] by (simp add: to_rgba_fields)
  have g: "nat l < nat (r - 1) \<and> nat t < nat (b - 1)"
    and res: "res = crop (to_rgba img) (padded_box (to_rgba img) (nat l, nat t, nat (r - 1), nat (b - 1)))"
    using assms bb by (auto simp: pad_crop_def Let_def content_bounds_rgba[OF to_rgba_fields(1)]
        split: if_splits)
  from g box have "l + 1 < r" "t + 1 < b" by linarith+
  with bb res pb show ?thesis using that by simp
qed

lemma pad_crop_fixpoint:
  assumes "pad_crop img = Some (Inr c)"
  shows "pad_crop c = Some (Inr c)"
proof -
  obtain l t r b where bb: "getbbox (to_rgba img) = Some (l, t, r, b)" and lr: "l + 1 < r" "t + 1 < b"
    and res: "Inr c = crop (to_rgba img)
       (max 0 (l - 2), max 0 (t - 2), min (int (width img)) (r + 2), min (int (height img)) (b + 2))"
    using assms by (rule pad_crop_Some)
  let ?x0 = "max 0 (l - 2)" and ?y0 = "max 0 (t - 2)"
  let ?x1 = "min (int (width img)) (r + 2)" and ?y1 = "min (int (height img)) (b + 2)"
  have box: "0 \<le> l \<and> l < r \<and> r \<le> int (width img) \<and> 0 \<le> t \<and> t < b \<and> b \<le> int (height img)"
    using getbbox_in_image[OF bb] by (simp add: to_rgba_fields)
  have c: "crop (to_rgba img) (?x0, ?y0, ?x1, ?y1) = Inr c" using res by simp
  have fc: "mode c = RGBA" "width c = nat (?x1 - ?x0)" "height c = nat (?y1 - ?y0)" "wf_image c"
    using crop_fields[OF c] by (simp_all add: to_rgba_fields)
  have bc: "getbbox c = Some (l - ?x0, t - ?y0, r - ?x0, b - ?y0)"
    using box by (intro getbbox_window_crop[OF bb to_rgba_fields(1) _ _ _ _ _ _ _ _ c])
      (simp_all add: to_rgba_fields)
  have m: "to_rgba c = c" using fc(1) by (simp add: to_rgba_def)
  have cb: "content_bounds c = (nat (l - ?x0), nat (t - ?y0), nat (r - ?x0 - 1), nat (b - ?y0 - 1))"
    using content_bounds_rgba[OF fc(1)] bc by simp
  have g: "nat (l - ?x0) < nat (r - ?x0 - 1) \<and> nat (t - ?y0) < nat (b - ?y0 - 1)"
    using lr box by linarith
  have pb: "padded_box c (nat (l - ?x0), nat (t - ?y0), nat (r - ?x0 - 1), nat (b - ?y0 - 1)) =
      (0, 0, int (width c), int (height c))"
    using padded_box_getbbox[OF bc] fc(2,3) box by simp
  show ?thesis
    using g by (simp add: pad_crop_def Let_def m cb pb crop_full[OF fc(4)])
qed

section \<open>The scripts on the file system\<close>

lemma files_crop_in_place:
  "files (crop_in_place tf f s) = rewrite_file (drawable_folder, f) (saved tf) (files s)"
  by (auto simp: crop_in_place_def rewrite_file_def saved_def Let_def print_msg_def
      split: sum.splits option.splits)

lemma files_crop_pass:
  "files (fold (crop_in_place tf) gs s) = fold (\<lambda>f. rewrite_file (drawable_folder, f) (saved tf)) gs (files s)"
  by (induction gs arbitrary: s) (simp_all add: files_crop_in_place)

lemma map_of_crop_pass:
  "distinct gs \<Longrightarrow> map_of (files (fold (crop_in_place tf) gs s)) q =
     (if fst q = drawable_folder \<and> snd q \<in> set gs then rewritten (saved tf) (map_of (files s) q)
      else map_of (files s) q)"
  by (simp add: files_crop_pass map_of_fold_rewrite_file)

lemma goblin_files_crop_pass:
  "goblin_files (files (fold (crop_in_place tf) gs s)) = goblin_files (files s)"
  by (simp add: goblin_files_def files_crop_pass listdir_keys[OF keys_fold_rewrite_file])

lemma wf_saved:
  assumes "\<And>img c. tf img = Some (Inr c) \<Longrightarrow> wf_image c"
  shows "\<And>img c. wf_image img \<Longrightarrow> saved tf img = Some c \<Longrightarrow> wf_image c"
  using assms by (auto simp: saved_def split: option.splits sum.splits)

lemma wf_tight_crop: "tight_crop img = Some (Inr c) \<Longrightarrow> wf_image c"
  by (auto elim!: tight_crop_Some dest: crop_fields(4))

lemma wf_pad_crop: "pad_crop img = Some (Inr c) \<Longrightarrow> wf_image c"
proof -
  assume a: "pad_crop img = Some (Inr c)"
  obtain l t r b where "padded_box (to_rgba img) (content_bounds (to_rgba img)) = (l, t, r, b)"
    by (cases "padded_box (to_rgba img) (content_bounds (to_rgba img))") auto
  with a show ?thesis
    by (auto simp: pad_crop_def Let_def split: prod.splits if_splits dest: crop_fields(4))
qed

lemma wf_fs_crop_pass:
  assumes "wf_fs (files s)" "\<And>img c. tf img = Some (Inr c) \<Longrightarrow> wf_image c"
  shows "wf_fs (files (fold (crop_in_place tf) gs s))"
  unfolding files_crop_pass by (rule wf_fs_fold_rewrite_file[OF assms(1) wf_saved[OF assms(2)]])

lemma distinct_goblin_files: "wf_fs fs \<Longrightarrow> distinct (goblin_files fs)"
  by (simp add: goblin_files_def wf_fs_def distinct_listdir)

lemma crop_in_place_one_line:
  "\<exists>m. console (crop_in_place tf f s) = console s @ [m] \<and> msg_file m = Some (id f)"
  by (auto simp: crop_in_place_def Let_def print_msg_def msg_file_def split: sum.splits option.splits)

lemma crop_goblin_tight_map_of:
  assumes "wf_fs (files s)"
  shows "map_of (files (crop_goblin_tight s)) q =
    (if fst q = drawable_folder \<and> snd q \<in> set (goblin_files (files s))
     then rewritten (saved tight_crop) (map_of (files s) q) else map_of (files s) q)"
  using map_of_crop_pass[OF distinct_goblin_files[OF assms], of tight_crop]
  by (simp add: crop_goblin_tight_def Let_def print_msg_files)

lemma crop_goblin_tight_wf: "wf_fs (files s) \<Longrightarrow> wf_fs (files (crop_goblin_tight s))"
  unfolding crop_goblin_tight_def Let_def print_msg_files
  by (rule wf_fs_crop_pass[OF _ wf_tight_crop]) (simp add: print_msg_files)

lemma crop_goblin_sprites_wf: "wf_fs (files s) \<Longrightarrow> wf_fs (files (crop_goblin_sprites s))"
  unfolding crop_goblin_sprites_def Let_def print_msg_files
  by (rule wf_fs_crop_pass[OF _ wf_pad_crop]) (simp add: print_msg_files)

lemma crop_goblin_sprites_map_of:
  assumes "wf_fs (files s)"
  shows "map_of (files (crop_goblin_sprites s)) q =
    (if fst q = drawable_folder \<and> snd q \<in> set (goblin_files (files s))
     then rewritten (saved pad_crop) (map_of (files s) q) else map_of (files s) q)"
  using map_of_crop_pass[OF distinct_goblin_files[OF assms], of pad_crop]
  by (simp add: crop_goblin_sprites_def Let_def print_msg_files)

lemma crop_goblin_sprites_goblin_files:
  "goblin_files (files (crop_goblin_sprites s)) = goblin_files (files s)"
  using goblin_files_crop_pass[of pad_crop "goblin_files (files s)"]
  by (simp add: crop_goblin_sprites_def Let_def print_msg_files)

lemma crop_goblin_tight_goblin_files: "goblin_files (files (crop_goblin_tight s)) = goblin_files (files s)"
  using goblin_files_crop_pass[of tight_crop "goblin_files (files s)"]
  by (simp add: crop_goblin_tight_def Let_def print_msg_files)

text \<open>
  C23: \<open>crop_goblin_tight.py\<close> on a well-formed folder replaces each goblin sprite
  that has content by its tight crop, leaves empty and unreadable sprites and every
  other file as they were, and keeps the folder well-formed and its goblin files.
\<close>

theorem crop_goblin_tight_files:
  assumes wf: "wf_fs (files s)"
  shows "wf_fs (files (crop_goblin_tight s)) \<and>
    goblin_files (files (crop_goblin_tight s)) = goblin_files (files s) \<and>
    (\<forall>q. map_of (files (crop_goblin_tight s)) q =
       (if fst q = drawable_folder \<and> snd q \<in> set (goblin_files (files s))
        then (case map_of (files s) q of
                Some (PngFile img) \<Rightarrow>
                  (case tight_crop img of Some (Inr c) \<Rightarrow> Some (PngFile c) | _ \<Rightarrow> Some (PngFile img))
              | v \<Rightarrow> v)
        else map_of (files s) q))"
proof -
  have r: "rewritten (saved tight_crop) v =
      (case v of
         Some (PngFile img) \<Rightarrow>
           (case tight_crop img of Some (Inr c) \<Rightarrow> Some (PngFile c) | _ \<Rightarrow> Some (PngFile img))
       | v \<Rightarrow> v)" for v
    by (auto simp: rewritten_def saved_def split: option.splits disk_file.splits sum.splits)
  show ?thesis
    using crop_goblin_tight_wf[OF wf] crop_goblin_tight_goblin_files crop_goblin_tight_map_of[OF wf]
    unfolding r by auto
qed

theorem crop_goblin_tight_files_witness:
  "map_of (files (crop_goblin_tight crop_bad_sys)) (drawable_folder, ''goblin_idle_0001.png'') =
     Some (PngFile (sample_image [[solid, solid], [solid, solid]])) \<and>
   map_of (files (crop_goblin_tight crop_bad_sys)) (drawable_folder, ''goblin_run_0001.png'') =
     Some (PngFile (sample_image [[transparent]])) \<and>
   map_of (files (crop_goblin_tight crop_bad_sys)) (drawable_folder, ''goblin_hit_0001.png'') = Some Unreadable"
proof -
  have wf: "wf_fs (files crop_bad_sys)" by code_simp
  have f: "''goblin_idle_0001.png'' \<in> set (goblin_files (files crop_bad_sys))"
    "''goblin_run_0001.png'' \<in> set (goblin_files (files crop_bad_sys))"
    "''goblin_hit_0001.png'' \<in> set (goblin_files (files crop_bad_sys))" by code_simp+
  have m: "map_of (files crop_bad_sys) (drawable_folder, ''goblin_idle_0001.png'') = Some (PngFile sprite_block)"
    "map_of (files crop_bad_sys) (drawable_folder, ''goblin_run_0001.png'') =
       Some (PngFile (sample_image [[transparent]]))"
    "map_of (files crop_bad_sys) (drawable_folder, ''goblin_hit_0001.png'') = Some Unreadable"
    by code_simp+
  have t: "tight_crop sprite_block = Some (Inr (sample_image [[solid, solid], [solid, solid]]))"
    "tight_crop (sample_image [[transparent]]) = None" by code_simp+
  from crop_goblin_tight_files[OF wf] have
    "\<forall>q. map_of (files (crop_goblin_tight crop_bad_sys)) q =
       (if fst q = drawable_folder \<and> snd q \<in> set (goblin_files (files crop_bad_sys))
        then (case map_of (files crop_bad_sys) q of
                Some (PngFile img) \<Rightarrow>
                  (case tight_crop img of Some (Inr c) \<Rightarrow> Some (PngFile c) | _ \<Rightarrow> Some (PngFile img))
              | v \<Rightarrow> v)
        else map_of (files crop_bad_sys) q)" by blast
  then show ?thesis using f m t by simp
qed

text \<open>
  C24: the spec's idempotence of the tight crop, on the files: running
  \<open>crop_goblin_tight.py\<close> a second time leaves the folder exactly as the first run
  left it.
\<close>

theorem crop_goblin_tight_twice:
  assumes wf: "wf_fs (files s)"
  shows "map_of (files (crop_goblin_tight (crop_goblin_tight s))) = map_of (files (crop_goblin_tight s))"
proof
  fix q
  let ?s1 = "crop_goblin_tight s"
  have fp: "saved tight_crop c = Some c" if "saved tight_crop img = Some c" for img c
    using that tight_crop_fixpoint[of img c] by (auto simp: saved_def split: option.splits sum.splits)
  show "map_of (files (crop_goblin_tight ?s1)) q = map_of (files ?s1) q"
    using crop_goblin_tight_map_of[OF crop_goblin_tight_wf[OF wf], of q]
      crop_goblin_tight_map_of[OF wf, of q] rewritten_idem[of "saved tight_crop", OF fp]
    by (simp add: crop_goblin_tight_goblin_files)
qed

theorem crop_goblin_tight_twice_witness:
  "map_of (files (crop_goblin_tight (crop_goblin_tight crop_demo_sys))) =
   map_of (files (crop_goblin_tight crop_demo_sys))"
proof -
  have wf: "wf_fs (files crop_demo_sys)" by code_simp
  show ?thesis by (rule crop_goblin_tight_twice[OF wf])
qed

text \<open>
  C26: \<open>crop_goblin_sprites.py\<close> is idempotent on the files as well: its padded
  crop of a sprite is again a sprite whose content lies 2 pixels (or the image
  edge) inside its border, so a second run crops each sprite to itself.
\<close>

theorem crop_goblin_sprites_twice:
  assumes wf: "wf_fs (files s)"
  shows "map_of (files (crop_goblin_sprites (crop_goblin_sprites s))) = map_of (files (crop_goblin_sprites s))"
proof
  fix q
  let ?s1 = "crop_goblin_sprites s"
  have fp: "saved pad_crop c = Some c" if "saved pad_crop img = Some c" for img c
    using that pad_crop_fixpoint[of img c] by (auto simp: saved_def split: option.splits sum.splits)
  show "map_of (files (crop_goblin_sprites ?s1)) q = map_of (files ?s1) q"
    using crop_goblin_sprites_map_of[OF crop_goblin_sprites_wf[OF wf], of q]
      crop_goblin_sprites_map_of[OF wf, of q] rewritten_idem[of "saved pad_crop", OF fp]
    by (simp add: crop_goblin_sprites_goblin_files)
qed

theorem crop_goblin_sprites_twice_witness:
  "map_of (files (crop_goblin_sprites (crop_goblin_sprites crop_demo_sys))) =
   map_of (files (crop_goblin_sprites crop_demo_sys))"
proof -
  have wf: "wf_fs (files crop_demo_sys)" by code_simp
  show ?thesis by (rule crop_goblin_sprites_twice[OF wf])
qed

text \<open>
  C30: both crop scripts run to their last line on every folder: after the
  header lines (\<open>Found N goblin files\<close>, and for the tight crop its
  announcement) they print exactly one line (processed, skipped or error) per
  goblin file, in listing order, then \<open>Done!\<close>; every exception of a file is
  caught inside the loop.
\<close>

theorem crop_scripts_console:
  "(\<exists>ms. console (crop_goblin_tight s) =
      console s @ [Found (length (goblin_files (files s))),
                   Text ''Cropping ALL transparent pixels (including bottom)...''] @ ms @ [DoneMsg] \<and>
      map msg_file ms = map Some (goblin_files (files s))) \<and>
   (\<exists>ms. console (crop_goblin_sprites s) =
      console s @ [Found (length (goblin_files (files s)))] @ ms @ [DoneMsg] \<and>
      map msg_file ms = map Some (goblin_files (files s)))"
proof -
  let ?gs = "goblin_files (files s)"
  let ?s1 = "print_msg (Found (length ?gs)) s"
  let ?s2 = "print_msg (Text ''Cropping ALL transparent pixels (including bottom)...'') ?s1"
  obtain ms where t: "console (fold (crop_in_place tight_crop) ?gs ?s2) = console ?s2 @ ms"
    and tm: "map msg_file ms = map Some ?gs"
    using console_fold_one_line[where step = "crop_in_place tight_crop" and key = id and xs = ?gs and s = ?s2,
        OF crop_in_place_one_line] by auto
  obtain ms' where p: "console (fold (crop_in_place pad_crop) ?gs ?s1) = console ?s1 @ ms'"
    and pm: "map msg_file ms' = map Some ?gs"
    using console_fold_one_line[where step = "crop_in_place pad_crop" and key = id and xs = ?gs and s = ?s1,
        OF crop_in_place_one_line] by auto
  have "console (crop_goblin_tight s) =
      console s @ [Found (length ?gs), Text ''Cropping ALL transparent pixels (including bottom)...''] @ ms @ [DoneMsg]"
    using t by (simp add: crop_goblin_tight_def Let_def print_msg_def)
  moreover have "console (crop_goblin_sprites s) = console s @ [Found (length ?gs)] @ ms' @ [DoneMsg]"
    using p by (simp add: crop_goblin_sprites_def Let_def print_msg_def)
  ultimately show ?thesis using tm pm by blast
qed

end
