(* ===== verification/Canvas.thy ===== *)
theory Canvas
  imports CropGoblin
begin

text \<open>
  The three scripts that put every goblin sprite on a canvas of one size:
  \<open>align_goblin_bottom.py\<close> (a fixed 227 x 227 canvas),
  \<open>resize_goblin_uniform.py\<close> (a square of the largest dimension plus 20, the sprite
  10 pixels above the bottom) and \<open>uniform_goblin_bottom.py\<close> (the largest width by
  the largest height). Each makes a first pass over the goblin files for the largest
  width and height, outside any \<open>try\<close>, so an unreadable file aborts the script;
  the second pass pastes each sprite, with itself as mask, onto a transparent
  canvas at an offset centred horizontally, and saves it over the original.
\<close>

section \<open>Shared: the first pass and the paste\<close>

text \<open>Lines 13--20 of the three scripts: the largest width and height; \<open>Image.open\<close>
  raising here ends the script.\<close>

fun max_dims :: "fs \<Rightarrow> string list \<Rightarrow> nat \<times> nat \<Rightarrow> error + nat \<times> nat" where
  "max_dims fs [] acc = Inr acc"
| "max_dims fs (f # gs) (mw, mh) =
     (case open_image fs (drawable_folder, f) of
        Inl e \<Rightarrow> Inl e
      | Inr img \<Rightarrow> max_dims fs gs (max mw (width img), max mh (height img)))"

text \<open>\<open>x_offset = (canvas_w - img.width) // 2\<close> and \<open>y_offset = canvas_h - img.height - lift\<close>,
  on Python integers (negative when the sprite is larger than the canvas).\<close>

definition bottom_offset :: "nat \<times> nat \<Rightarrow> nat \<Rightarrow> image \<Rightarrow> int \<times> int" where
  "bottom_offset sz lift img =
     ((int (fst sz) - int (width img)) div 2, int (snd sz) - int (height img) - int lift)"

text \<open>\<open>canvas = Image.new('RGBA', size, (0, 0, 0, 0)); canvas.paste(img, offset, img)\<close>\<close>

definition place_on_canvas :: "nat \<times> nat \<Rightarrow> int \<times> int \<Rightarrow> image \<Rightarrow> error + image" where
  "place_on_canvas sz off img = paste (new_image RGBA sz transparent) img off img"

text \<open>The body of the second loop, inside its \<open>try\<close>.\<close>

definition canvas_step :: "nat \<times> nat \<Rightarrow> nat \<Rightarrow> string \<Rightarrow> sys \<Rightarrow> sys" where
  "canvas_step sz lift f s =
     (let p = (drawable_folder, f) in
      case open_image (files s) p of
        Inl e \<Rightarrow> print_msg (Failed f e) s
      | Inr img \<Rightarrow>
          (case place_on_canvas sz (bottom_offset sz lift img) img of
             Inl e \<Rightarrow> print_msg (Failed f e) s
           | Inr c \<Rightarrow>
               print_msg (Processed f (width img, height img) sz)
                 (s\<lparr>files := save_png p c (files s)\<rparr>)))"

text \<open>
  The three scripts: the file list and its count, the first pass (an exception
  there is an uncaught \<open>Inl\<close> with the state at that point), the size of the
  canvas, the second pass and the closing line.
\<close>

definition align_canvas :: nat where
  "align_canvas = 227"

definition align_goblin_bottom :: "sys \<Rightarrow> error \<times> sys + sys" where
  "align_goblin_bottom s0 =
     (let gs = goblin_files (files s0); s1 = print_msg (Found (length gs)) s0 in
      case max_dims (files s1) gs (0, 0) of
        Inl e \<Rightarrow> Inl (e, s1)
      | Inr (mw, mh) \<Rightarrow>
          (let sz = (align_canvas, align_canvas);
               s2 = print_msg (CanvasSize align_canvas align_canvas) (print_msg (MaxDims mw mh) s1)
           in Inr (print_msg DoneMsg (fold (canvas_step sz 0) gs s2))))"

definition resize_goblin_uniform :: "sys \<Rightarrow> error \<times> sys + sys" where
  "resize_goblin_uniform s0 =
     (let gs = goblin_files (files s0); s1 = print_msg (Found (length gs)) s0 in
      case max_dims (files s1) gs (0, 0) of
        Inl e \<Rightarrow> Inl (e, s1)
      | Inr (mw, mh) \<Rightarrow>
          (let cs = max mw mh + 20;
               s2 = print_msg (CanvasSize cs cs) (print_msg (MaxDims mw mh) s1)
           in Inr (print_msg DoneMsg (fold (canvas_step (cs, cs) 10) gs s2))))"

definition uniform_goblin_bottom :: "sys \<Rightarrow> error \<times> sys + sys" where
  "uniform_goblin_bottom s0 =
     (let gs = goblin_files (files s0); s1 = print_msg (Found (length gs)) s0 in
      case max_dims (files s1) gs (0, 0) of
        Inl e \<Rightarrow> Inl (e, s1)
      | Inr (mw, mh) \<Rightarrow>
          (let s2 = print_msg (CanvasSize mw mh) (print_msg (MaxDims mw mh) s1)
           in Inr (print_msg DoneMsg (fold (canvas_step (mw, mh) 0) gs s2))))"

section \<open>Sample sprite\<close>

definition half_alpha_sprite :: image where
  "half_alpha_sprite = sample_image [[\<lparr>red = 200, green = 100, blue = 0, alpha = 128\<rparr>]]"

text \<open>A drawable folder with two goblin sprites and another file; and one with an
  unreadable goblin file.\<close>

definition demo_sys :: sys where
  "demo_sys = \<lparr>files =
     [((drawable_folder, ''goblin_idle_0001.png''), PngFile sprite_block),
      ((drawable_folder, ''player_avatar.png''), PngFile sprite_column),
      ((drawable_folder, ''goblin_run_0001.png''), PngFile sprite_column)],
     console = []\<rparr>"

definition broken_sys :: sys where
  "broken_sys = demo_sys\<lparr>files := files demo_sys @ [((drawable_folder, ''goblin_hurt_0001.png''), Unreadable)]\<rparr>"

text \<open>A sprite one pixel taller than the 227-pixel canvas of \<open>align_goblin_bottom.py\<close>,
  opaque only in its top row.\<close>

definition tall_sprite :: image where
  "tall_sprite = sample_image ([solid] # replicate 227 [transparent])"

text \<open>A drawable folder whose only goblin sprite is the half-transparent pixel.\<close>

definition fade_sys :: sys where
  "fade_sys = \<lparr>files = [((drawable_folder, ''goblin_idle_0001.png''), PngFile half_alpha_sprite)],
     console = []\<rparr>"

section \<open>Lemmas: placing a sprite\<close>

lemma place_on_canvas_fields:
  assumes "place_on_canvas sz off img = Inr out"
  shows "mode out = RGBA" "width out = fst sz" "height out = snd sz" "wf_image out"
  using assms paste_fields[of "new_image RGBA sz transparent" img off img out]
    wf_paste[of "new_image RGBA sz transparent" img off img out]
  by (simp_all add: place_on_canvas_def image_simps)

lemma place_on_canvas_rgba:
  "mode img = RGBA \<Longrightarrow> \<exists>out. place_on_canvas sz off img = Inr out"
  by (simp add: place_on_canvas_def paste_self_mask_Inr)

lemma pixel_at_place_on_canvas:
  assumes "place_on_canvas (cw, ch) off img = Inr out" "mode img = RGBA"
    "x < cw" "y < ch"
  shows "pixel_at out x y =
    (if in_box off (width img, height img) x y
     then (let p = pixel_at img (nat (int x - fst off)) (nat (int y - snd off)) in
           blend_px (alpha p) transparent p)
     else transparent)"
proof -
  have "paste (new_image RGBA (cw, ch) transparent) img off img = Inr out"
    using assms(1) by (simp add: place_on_canvas_def)
  from pixel_at_paste[OF this] assms(2-4) show ?thesis
    by (simp add: image_simps paste_source_def Let_def)
qed

lemma unat_blend_clear:
  "unat (blend a 0 c) = (unat c * unat a + 127) div 255"
  by (simp add: unat_blend)

lemma nat_sub_half_offset: assumes "w \<le> cw"
  shows "nat (int x - (int cw - int w) div 2) = x - (cw - w) div 2"
proof -
  have "(int cw - int w) div 2 = int ((cw - w) div 2)"
    using assms by (simp add: of_nat_diff zdiv_int)
  then show ?thesis by simp
qed
lemma in_box_bottom_offset:
  assumes "width img \<le> cw" "height img + lift \<le> ch"
  shows "in_box (bottom_offset (cw, ch) lift img) (width img, height img) x y \<longleftrightarrow>
    (cw - width img) div 2 \<le> x \<and> x < (cw - width img) div 2 + width img \<and>
    ch - height img - lift \<le> y \<and> y < ch - height img - lift + height img"
proof -
  have a: "(int cw - int (width img)) div 2 = int ((cw - width img) div 2)"
    using assms(1) by (simp add: of_nat_diff zdiv_int)
  have b: "int ch - int (height img) - int lift = int (ch - height img - lift)"
    using assms(2) by simp
  show ?thesis unfolding in_box_def bottom_offset_def fst_conv snd_conv a b by linarith
qed
text \<open>
  C7: a sprite no larger than the canvas is placed with its left edge at
  \<open>(canvas_w - w) // 2\<close> and its bottom edge \<open>lift\<close> pixels above the canvas
  bottom (\<open>lift\<close> is 0 in \<open>align_goblin_bottom.py\<close> and
  \<open>uniform_goblin_bottom.py\<close>, 10 in \<open>resize_goblin_uniform.py\<close>); every canvas
  pixel outside the sprite's rectangle stays transparent, and inside it holds the
  sprite pixel blended over transparency with the sprite's own alpha.
\<close>

theorem bottom_center_placement:
  assumes "mode img = RGBA" "width img \<le> cw" "height img + lift \<le> ch"
  shows "\<exists>out. place_on_canvas (cw, ch) (bottom_offset (cw, ch) lift img) img = Inr out \<and>
    width out = cw \<and> height out = ch \<and>
    (\<forall>x < cw. \<forall>y < ch. pixel_at out x y =
       (if (cw - width img) div 2 \<le> x \<and> x < (cw - width img) div 2 + width img \<and>
           ch - height img - lift \<le> y \<and> y < ch - height img - lift + height img
        then blend_px (alpha (pixel_at img (x - (cw - width img) div 2) (y - (ch - height img - lift))))
               transparent (pixel_at img (x - (cw - width img) div 2) (y - (ch - height img - lift)))
        else transparent))"
proof -
  obtain out where out: "place_on_canvas (cw, ch) (bottom_offset (cw, ch) lift img) img = Inr out"
    using place_on_canvas_rgba[OF assms(1)] by blast
  have ox: "nat (int x - fst (bottom_offset (cw, ch) lift img)) = x - (cw - width img) div 2" for x
    using nat_sub_half_offset[OF assms(2)] by (simp add: bottom_offset_def)
  have oy: "nat (int y - snd (bottom_offset (cw, ch) lift img)) = y - (ch - height img - lift)" for y
    using assms(3) by (simp add: bottom_offset_def)
  show ?thesis
  proof (intro exI conjI allI impI)
    show "place_on_canvas (cw, ch) (bottom_offset (cw, ch) lift img) img = Inr out" by (rule out)
    show "width out = cw" "height out = ch" using place_on_canvas_fields[OF out] by simp_all
  next
    fix x y assume xy: "x < cw" "y < ch"
    show "pixel_at out x y =
       (if (cw - width img) div 2 \<le> x \<and> x < (cw - width img) div 2 + width img \<and>
           ch - height img - lift \<le> y \<and> y < ch - height img - lift + height img
        then blend_px (alpha (pixel_at img (x - (cw - width img) div 2) (y - (ch - height img - lift))))
               transparent (pixel_at img (x - (cw - width img) div 2) (y - (ch - height img - lift)))
        else transparent)"
      unfolding pixel_at_place_on_canvas[OF out assms(1) xy] in_box_bottom_offset[OF assms(2,3)]
        ox oy Let_def ..
  qed
qed
text \<open>
  C8: pasting a sprite with itself as the mask blends every channel with the
  sprite's alpha, alpha included: on the transparent canvas a pixel of alpha
  \<open>a\<close> and colour \<open>c\<close> becomes alpha \<open>round(a * a / 255)\<close> and colour
  \<open>round(c * a / 255)\<close>. Only fully opaque and fully transparent pixels come
  through unchanged; a half-transparent edge pixel (alpha 128) ends with alpha 64.
\<close>

theorem canvas_pixel_channels:
  assumes "place_on_canvas (cw, ch) off img = Inr out" "mode img = RGBA"
    "x < cw" "y < ch" "in_box off (width img, height img) x y"
    "p = pixel_at img (nat (int x - fst off)) (nat (int y - snd off))"
  shows "unat (alpha (pixel_at out x y)) = (unat (alpha p) * unat (alpha p) + 127) div 255 \<and>
    unat (red (pixel_at out x y)) = (unat (red p) * unat (alpha p) + 127) div 255 \<and>
    unat (green (pixel_at out x y)) = (unat (green p) * unat (alpha p) + 127) div 255 \<and>
    unat (blue (pixel_at out x y)) = (unat (blue p) * unat (alpha p) + 127) div 255"
proof -
  have "pixel_at out x y = blend_px (alpha p) transparent p"
    using pixel_at_place_on_canvas[OF assms(1-4)] assms(5,6) by (simp add: Let_def)
  then show ?thesis by (simp only: blend_px_def transparent_def rgba.simps unat_blend_clear)
qed

theorem bottom_center_placement_witness:
  "mode sprite_block = RGBA \<and> width sprite_block \<le> 6 \<and> height sprite_block + 0 \<le> 6 \<and>
   (\<exists>out. place_on_canvas (6, 6) (bottom_offset (6, 6) 0 sprite_block) sprite_block = Inr out \<and>
     pixel_at out 2 3 = solid \<and> pixel_at out 0 0 = transparent)"
proof -
  have h: "mode sprite_block = RGBA" "width sprite_block \<le> 6" "height sprite_block + 0 \<le> 6"
    by (simp_all add: sprite_block_def sample_image_def)
  have w: "width sprite_block = 4" "height sprite_block = 4"
    by (simp_all add: sprite_block_def sample_image_def)
  have p: "pixel_at sprite_block 1 1 = solid"
    by (simp add: sprite_block_def sample_image_def pixel_at_def)
  have a: "alpha solid = 255" by (simp add: solid_def)
  obtain out where out: "place_on_canvas (6, 6) (bottom_offset (6, 6) 0 sprite_block) sprite_block = Inr out"
    and px: "\<forall>x < 6. \<forall>y < 6. pixel_at out x y =
       (if (6 - width sprite_block) div 2 \<le> x \<and> x < (6 - width sprite_block) div 2 + width sprite_block \<and>
           6 - height sprite_block - 0 \<le> y \<and> y < 6 - height sprite_block - 0 + height sprite_block
        then blend_px (alpha (pixel_at sprite_block (x - (6 - width sprite_block) div 2) (y - (6 - height sprite_block - 0))))
               transparent (pixel_at sprite_block (x - (6 - width sprite_block) div 2) (y - (6 - height sprite_block - 0)))
        else transparent)"
    using bottom_center_placement[OF h] by blast
  have "pixel_at out 2 3 = solid" using px w p a by simp
  moreover have "pixel_at out 0 0 = transparent" using px w by simp
  ultimately show ?thesis using h out by blast
qed

theorem canvas_pixel_channels_witness:
  "\<exists>out. place_on_canvas (1, 1) (0, 0) half_alpha_sprite = Inr out \<and>
     unat (alpha (pixel_at out 0 0)) = 64 \<and> unat (red (pixel_at out 0 0)) = 100"
proof -
  have m: "mode half_alpha_sprite = RGBA" by (simp add: half_alpha_sprite_def sample_image_def)
  obtain out where out: "place_on_canvas (1, 1) (0, 0) half_alpha_sprite = Inr out"
    using place_on_canvas_rgba[OF m] by blast
  have ib: "in_box (0, 0) (width half_alpha_sprite, height half_alpha_sprite) 0 0"
    by (simp add: in_box_def half_alpha_sprite_def sample_image_def)
  have p: "\<lparr>red = 200, green = 100, blue = 0, alpha = 128\<rparr> =
      pixel_at half_alpha_sprite (nat (int 0 - fst (0::int, 0::int))) (nat (int 0 - snd (0::int, 0::int)))"
    by (simp add: half_alpha_sprite_def sample_image_def pixel_at_def)
  have "unat (alpha (pixel_at out 0 0)) = (128 * 128 + 127) div 255 \<and>
        unat (red (pixel_at out 0 0)) = (200 * 128 + 127) div 255"
    using canvas_pixel_channels[OF out m zero_less_one zero_less_one ib p] by simp
  then show ?thesis using out by auto
qed

lemma in_box_bottom_offset_tall:
  assumes "width img \<le> cw" "ch < height img" "y < ch"
  shows "in_box (bottom_offset (cw, ch) 0 img) (width img, height img) x y \<longleftrightarrow>
    (cw - width img) div 2 \<le> x \<and> x < (cw - width img) div 2 + width img"
proof -
  have a: "(int cw - int (width img)) div 2 = int ((cw - width img) div 2)"
    using assms(1) by (simp add: of_nat_diff zdiv_int)
  show ?thesis unfolding in_box_def bottom_offset_def fst_conv snd_conv a using assms(2,3) by linarith
qed

lemma alpha_fades:
  assumes "0 < a" "a < (255::nat)"
  shows "(a * a + 127) div 255 < a"
proof -
  have "a * a + 127 < a * 255"
  proof -
    have "a * (255 - a) \<ge> 128"
    proof (cases "a \<le> 127")
      case True
      then have "1 * 128 \<le> a * (255 - a)" using assms by (intro mult_le_mono) auto
      then show ?thesis by simp
    next
      case False
      then have "128 * 1 \<le> a * (255 - a)" using assms by (intro mult_le_mono) auto
      then show ?thesis by simp
    qed
    then show ?thesis using assms by (simp add: diff_mult_distrib2)
  qed
  then show ?thesis by (simp add: div_less_iff_less_mult)
qed

lemma place_same_size_alpha:
  assumes "place_on_canvas (width img, height img) (bottom_offset (width img, height img) 0 img) img = Inr c"
    "mode img = RGBA" "x < width img" "y < height img"
  shows "unat (alpha (pixel_at c x y)) =
    (unat (alpha (pixel_at img x y)) * unat (alpha (pixel_at img x y)) + 127) div 255"
proof -
  have off: "bottom_offset (width img, height img) 0 img = (0, 0)" by (simp add: bottom_offset_def)
  have "in_box (0, 0) (width img, height img) x y" using assms(3,4) by (simp add: in_box_def)
  then have "pixel_at c x y = blend_px (alpha (pixel_at img x y)) transparent (pixel_at img x y)"
    using pixel_at_place_on_canvas[OF assms(1)[unfolded off] assms(2-4)] by (simp add: Let_def)
  then show ?thesis by (simp only: blend_px_def transparent_def rgba.simps unat_blend_clear)
qed

section \<open>Lemmas: the first pass\<close>

lemma max_dims_Inr:
  assumes "max_dims fs gs (a, b) = Inr (mw, mh)"
  shows "a \<le> mw \<and> b \<le> mh \<and>
    (\<forall>f \<in> set gs. \<exists>img. open_image fs (drawable_folder, f) = Inr img \<and>
        width img \<le> mw \<and> height img \<le> mh) \<and>
    (mw = a \<or> (\<exists>f \<in> set gs. \<exists>img. open_image fs (drawable_folder, f) = Inr img \<and> width img = mw)) \<and>
    (mh = b \<or> (\<exists>f \<in> set gs. \<exists>img. open_image fs (drawable_folder, f) = Inr img \<and> height img = mh))"
  using assms
proof (induction gs arbitrary: a b)
  case Nil
  then show ?case by simp
next
  case (Cons g gs)
  then obtain img where img: "open_image fs (drawable_folder, g) = Inr img"
    and rest: "max_dims fs gs (max a (width img), max b (height img)) = Inr (mw, mh)"
    by (auto split: sum.splits)
  from Cons.IH[OF rest] img show ?case by (auto simp: max_def split: if_splits)
qed

lemma max_dims_total:
  "(\<forall>f \<in> set gs. \<exists>img. open_image fs (drawable_folder, f) = Inr img) \<Longrightarrow>
     \<exists>r. max_dims fs gs acc = Inr r"
proof (induction gs arbitrary: acc)
  case Nil
  then show ?case by simp
next
  case (Cons g gs)
  then show ?case by (cases acc) (auto split: sum.splits)
qed

lemma max_dims_error:
  "f \<in> set gs \<Longrightarrow> open_image fs (drawable_folder, f) = Inl e \<Longrightarrow>
     \<exists>e'. max_dims fs gs acc = Inl e'"
proof (induction gs arbitrary: acc)
  case Nil
  then show ?case by simp
next
  case (Cons g gs)
  then show ?case by (cases acc) (auto split: sum.splits)
qed

lemma max_dims_uniform:
  "gs \<noteq> [] \<Longrightarrow> (\<forall>f \<in> set gs. \<exists>img. open_image fs (drawable_folder, f) = Inr img \<and>
      width img = w \<and> height img = h) \<Longrightarrow> max_dims fs gs (0, 0) = Inr (w, h)"
proof -
  assume ne: "gs \<noteq> []" and all: "\<forall>f \<in> set gs. \<exists>img. open_image fs (drawable_folder, f) = Inr img \<and>
      width img = w \<and> height img = h"
  obtain mw mh where r: "max_dims fs gs (0, 0) = Inr (mw, mh)"
    using max_dims_total[of gs fs "(0, 0)"] all by fastforce
  from max_dims_Inr[OF r] ne all have "mw = w" "mh = h"
    by (auto simp: neq_Nil_conv)
  with r show ?thesis by simp
qed

section \<open>Lemmas: the second pass\<close>

lemma files_canvas_step:
  "files (canvas_step sz lift f s) =
     rewrite_file (drawable_folder, f) (\<lambda>img. ok (place_on_canvas sz (bottom_offset sz lift img) img))
       (files s)"
  by (auto simp: canvas_step_def rewrite_file_def ok_def Let_def print_msg_def
           split: sum.splits)

lemma files_canvas_pass:
  "files (fold (canvas_step sz lift) gs s) =
     fold (\<lambda>f. rewrite_file (drawable_folder, f)
                  (\<lambda>img. ok (place_on_canvas sz (bottom_offset sz lift img) img))) gs (files s)"
  by (induction gs arbitrary: s) (simp_all add: files_canvas_step)

lemma map_of_canvas_pass:
  assumes "distinct gs"
  shows "map_of (files (fold (canvas_step sz lift) gs s)) q =
    (if fst q = drawable_folder \<and> snd q \<in> set gs
     then rewritten (\<lambda>img. ok (place_on_canvas sz (bottom_offset sz lift img) img)) (map_of (files s) q)
     else map_of (files s) q)"
  by (simp add: files_canvas_pass map_of_fold_rewrite_file[OF assms])

lemma goblin_files_canvas_pass:
  "goblin_files (files (fold (canvas_step sz lift) gs s)) = goblin_files (files s)"
  by (simp add: goblin_files_def files_canvas_pass listdir_keys[OF keys_fold_rewrite_file])

lemma wf_fs_canvas_pass:
  "wf_fs (files s) \<Longrightarrow> wf_fs (files (fold (canvas_step sz lift) gs s))"
  unfolding files_canvas_pass
  by (rule wf_fs_fold_rewrite_file) (auto simp: ok_def dest: place_on_canvas_fields(4) split: sum.splits)

lemma canvas_scripts_wf:
  assumes "wf_fs (files s)"
  shows "wf_fs (files (final_state (align_goblin_bottom s))) \<and>
    wf_fs (files (final_state (resize_goblin_uniform s))) \<and>
    wf_fs (files (final_state (uniform_goblin_bottom s)))"
proof (cases "max_dims (files s) (goblin_files (files s)) (0, 0)")
  case (Inl e)
  then show ?thesis using assms
    by (simp add: align_goblin_bottom_def resize_goblin_uniform_def uniform_goblin_bottom_def
        Let_def print_msg_files)
next
  case (Inr d)
  then obtain mw mh where d: "max_dims (files s) (goblin_files (files s)) (0, 0) = Inr (mw, mh)"
    by (cases d) auto
  have w: "wf_fs (files (print_msg m2 (print_msg m1 (print_msg m0 s))))" for m0 m1 m2
    using assms by (simp add: print_msg_files)
  show ?thesis using d wf_fs_canvas_pass[OF w]
    by (simp add: align_goblin_bottom_def resize_goblin_uniform_def uniform_goblin_bottom_def
        Let_def print_msg_files)
qed

lemma canvas_step_one_line:
  "\<exists>m. console (canvas_step sz lift f s) = console s @ [m] \<and> msg_file m = Some (id f)"
  by (auto simp: canvas_step_def Let_def print_msg_def msg_file_def split: sum.splits)

lemma canvas_pass_console:
  "\<exists>hdr ms. console (print_msg DoneMsg (fold (canvas_step sz lift) gs
        (print_msg m2 (print_msg m1 (print_msg (Found (length gs)) s))))) =
      console s @ Found (length gs) # hdr @ ms @ [DoneMsg] \<and> length hdr = 2 \<and> map msg_file ms = map Some gs"
proof -
  let ?s0 = "print_msg m2 (print_msg m1 (print_msg (Found (length gs)) s))"
  obtain ms where "console (fold (canvas_step sz lift) gs ?s0) = console ?s0 @ ms" "map msg_file ms = map Some gs"
    using console_fold_one_line[where step = "canvas_step sz lift" and key = id and xs = gs and s = ?s0,
        OF canvas_step_one_line] by auto
  then show ?thesis
    by (intro exI[of _ "[m1, m2]"] exI[of _ ms]) (simp add: print_msg_def)
qed

lemma canvas_script_cases:
  assumes "run \<in> {align_goblin_bottom, resize_goblin_uniform, uniform_goblin_bottom}"
  obtains (abort) e where
      "run s = Inl (e, print_msg (Found (length (goblin_files (files s)))) s)"
  | (completes) sz lift m1 m2 where
      "run s = Inr (print_msg DoneMsg (fold (canvas_step sz lift) (goblin_files (files s))
          (print_msg m2 (print_msg m1 (print_msg (Found (length (goblin_files (files s)))) s)))))"
proof (cases "max_dims (files s) (goblin_files (files s)) (0, 0)")
  case (Inl e)
  then show ?thesis using assms abort
    by (auto simp: align_goblin_bottom_def resize_goblin_uniform_def uniform_goblin_bottom_def Let_def print_msg_files)
next
  case (Inr d)
  then show ?thesis using assms completes
    by (cases d) (auto simp: align_goblin_bottom_def resize_goblin_uniform_def uniform_goblin_bottom_def
        Let_def print_msg_files)
qed

lemma goblin_file_name: "f \<in> set (goblin_files fs) \<Longrightarrow> is_goblin_file f"
  by (simp add: goblin_files_def)

lemma open_image_Inr_map_of: "open_image fs p = Inr img \<longleftrightarrow> map_of fs p = Some (PngFile img)"
  by (auto simp: open_image_def split: option.splits disk_file.splits)

text \<open>
  The outcome of a canvas script whose goblin files all open as RGBA images: the
  script returns normally; the canvas size is the one its first pass computes; each
  goblin file now holds its sprite placed on that canvas; every other file is as
  it was; and the list of goblin files is unchanged.
\<close>

lemma canvas_script_run:
  assumes wf: "wf_fs (files s)"
    and rgba: "\<forall>f \<in> set (goblin_files (files s)). \<exists>img.
       open_image (files s) (drawable_folder, f) = Inr img \<and> mode img = RGBA"
    and run: "run = (\<lambda>s0. let gs = goblin_files (files s0); s1 = print_msg (Found (length gs)) s0 in
        case max_dims (files s1) gs (0, 0) of Inl e \<Rightarrow> Inl (e, s1)
        | Inr (mw, mh) \<Rightarrow> Inr (print_msg DoneMsg (fold (canvas_step (SZ mw mh) lift) gs (M mw mh s1))))"
    and M: "\<And>mw mh s. files (M mw mh s) = files s"
  shows "\<exists>mw mh s'. max_dims (files s) (goblin_files (files s)) (0, 0) = Inr (mw, mh) \<and>
    run s = Inr s' \<and> goblin_files (files s') = goblin_files (files s) \<and>
    (\<forall>f \<in> set (goblin_files (files s)). \<exists>img c.
        open_image (files s) (drawable_folder, f) = Inr img \<and>
        place_on_canvas (SZ mw mh) (bottom_offset (SZ mw mh) lift img) img = Inr c \<and>
        open_image (files s') (drawable_folder, f) = Inr c) \<and>
    (\<forall>q. \<not> (fst q = drawable_folder \<and> snd q \<in> set (goblin_files (files s))) \<longrightarrow>
        map_of (files s') q = map_of (files s) q)"
proof -
  let ?gs = "goblin_files (files s)"
  obtain mw mh where md: "max_dims (files s) ?gs (0, 0) = Inr (mw, mh)"
    using max_dims_total[of ?gs "files s" "(0, 0)"] rgba by fastforce
  let ?s1 = "M mw mh (print_msg (Found (length ?gs)) s)"
  let ?s' = "print_msg DoneMsg (fold (canvas_step (SZ mw mh) lift) ?gs ?s1)"
  have r: "run s = Inr ?s'" using md by (simp add: run Let_def print_msg_files)
  have f1: "files ?s1 = files s" by (simp add: M print_msg_files)
  have d: "distinct ?gs" using wf by (rule distinct_goblin_files)
  have mo: "map_of (files ?s') q =
    (if fst q = drawable_folder \<and> snd q \<in> set ?gs
     then rewritten (\<lambda>img. ok (place_on_canvas (SZ mw mh) (bottom_offset (SZ mw mh) lift img) img))
            (map_of (files s) q)
     else map_of (files s) q)" for q
    using map_of_canvas_pass[OF d, of "SZ mw mh" lift ?s1 q] f1 by (simp add: print_msg_files)
  have each: "\<exists>img c. open_image (files s) (drawable_folder, f) = Inr img \<and>
      place_on_canvas (SZ mw mh) (bottom_offset (SZ mw mh) lift img) img = Inr c \<and>
      open_image (files ?s') (drawable_folder, f) = Inr c" if f: "f \<in> set ?gs" for f
  proof -
    obtain img where img: "open_image (files s) (drawable_folder, f) = Inr img" "mode img = RGBA"
      using rgba f by blast
    obtain c where c: "place_on_canvas (SZ mw mh) (bottom_offset (SZ mw mh) lift img) img = Inr c"
      using place_on_canvas_rgba[OF img(2)] by blast
    have "map_of (files ?s') (drawable_folder, f) = Some (PngFile c)"
      using mo[of "(drawable_folder, f)"] f img(1) c
      by (simp add: open_image_Inr_map_of rewritten_def ok_def)
    with img c show ?thesis by (auto simp: open_image_Inr_map_of)
  qed
  have gf: "goblin_files (files ?s') = ?gs"
    using goblin_files_canvas_pass[of "SZ mw mh" lift ?gs ?s1] f1 by (simp add: print_msg_files)
  show ?thesis using md r gf each mo by auto
qed

lemma canvas_script_sized:
  assumes "\<forall>f \<in> set gs. \<exists>img c. open_image fs (drawable_folder, f) = Inr img \<and>
        place_on_canvas sz (bottom_offset sz lift img) img = Inr c \<and>
        open_image fs' (drawable_folder, f) = Inr c"
  shows "\<forall>f \<in> set gs. \<exists>c. open_image fs' (drawable_folder, f) = Inr c \<and>
        mode c = RGBA \<and> width c = fst sz \<and> height c = snd sz"
proof
  fix f assume "f \<in> set gs"
  then obtain img c where pc: "place_on_canvas sz (bottom_offset sz lift img) img = Inr c"
      and oc: "open_image fs' (drawable_folder, f) = Inr c"
    using assms by blast
  from place_on_canvas_fields[OF pc] oc
  show "\<exists>c. open_image fs' (drawable_folder, f) = Inr c \<and>
      mode c = RGBA \<and> width c = fst sz \<and> height c = snd sz"
    by auto
qed

lemma uniform_goblin_bottom_run:
  assumes wf: "wf_fs (files s)"
    and rgba: "\<forall>f \<in> set (goblin_files (files s)). \<exists>img.
       open_image (files s) (drawable_folder, f) = Inr img \<and> mode img = RGBA"
  shows "\<exists>mw mh s'. max_dims (files s) (goblin_files (files s)) (0, 0) = Inr (mw, mh) \<and>
    uniform_goblin_bottom s = Inr s' \<and>
    (\<forall>f \<in> set (goblin_files (files s)). \<exists>c. open_image (files s') (drawable_folder, f) = Inr c \<and>
        mode c = RGBA \<and> width c = mw \<and> height c = mh) \<and>
    (\<forall>q. \<not> (fst q = drawable_folder \<and> snd q \<in> set (goblin_files (files s))) \<longrightarrow>
        map_of (files s') q = map_of (files s) q) \<and>
    max_dims (files s') (goblin_files (files s')) (0, 0) = Inr (mw, mh) \<and>
    goblin_files (files s') = goblin_files (files s) \<and>
    (\<forall>f \<in> set (goblin_files (files s)). \<exists>img c. open_image (files s) (drawable_folder, f) = Inr img \<and>
        place_on_canvas (mw, mh) (bottom_offset (mw, mh) 0 img) img = Inr c \<and>
        open_image (files s') (drawable_folder, f) = Inr c)"
proof -
  let ?gs = "goblin_files (files s)"
  have run: "uniform_goblin_bottom = (\<lambda>s0. let gs = goblin_files (files s0); s1 = print_msg (Found (length gs)) s0 in
        case max_dims (files s1) gs (0, 0) of Inl e \<Rightarrow> Inl (e, s1)
        | Inr (mw, mh) \<Rightarrow> Inr (print_msg DoneMsg (fold (canvas_step (Pair mw mh) 0) gs
             ((\<lambda>mw mh s. print_msg (CanvasSize mw mh) (print_msg (MaxDims mw mh) s)) mw mh s1))))"
    unfolding uniform_goblin_bottom_def Let_def by (rule refl)
  have M: "\<And>mw mh s. files ((\<lambda>mw mh s. print_msg (CanvasSize mw mh) (print_msg (MaxDims mw mh) s))
      mw mh s) = files s"
    by (simp add: print_msg_files)
  from canvas_script_run[OF wf rgba run M]
  obtain mw mh s' where md: "max_dims (files s) ?gs (0, 0) = Inr (mw, mh)"
    and r: "uniform_goblin_bottom s = Inr s'" and gf: "goblin_files (files s') = ?gs"
    and each: "\<forall>f \<in> set ?gs. \<exists>img c. open_image (files s) (drawable_folder, f) = Inr img \<and>
        place_on_canvas (mw, mh) (bottom_offset (mw, mh) 0 img) img = Inr c \<and>
        open_image (files s') (drawable_folder, f) = Inr c"
    and frame: "\<forall>q. \<not> (fst q = drawable_folder \<and> snd q \<in> set ?gs) \<longrightarrow>
        map_of (files s') q = map_of (files s) q"
    by blast
  have sized: "\<forall>f \<in> set ?gs. \<exists>c. open_image (files s') (drawable_folder, f) = Inr c \<and>
        mode c = RGBA \<and> width c = mw \<and> height c = mh"
    using canvas_script_sized[OF each] by simp
  have "max_dims (files s') ?gs (0, 0) = Inr (mw, mh)"
  proof (cases "?gs = []")
    case True
    with md show ?thesis by simp
  next
    case False
    show ?thesis by (rule max_dims_uniform[OF False]) (use sized in blast)
  qed
  with md r sized frame gf each show ?thesis by auto
qed

section \<open>Properties of the canvas scripts\<close>

text \<open>
  C9: the first pass computes the largest width and the largest height over the
  goblin files: every sprite fits in them and, when there is a sprite, some sprite
  attains each.
\<close>

theorem max_dims_bounds:
  assumes "max_dims fs gs (0, 0) = Inr (mw, mh)"
  shows "(\<forall>f \<in> set gs. \<exists>img. open_image fs (drawable_folder, f) = Inr img \<and>
            width img \<le> mw \<and> height img \<le> mh) \<and>
    (gs \<noteq> [] \<longrightarrow>
       (\<exists>f \<in> set gs. \<exists>img. open_image fs (drawable_folder, f) = Inr img \<and> width img = mw) \<and>
       (\<exists>f \<in> set gs. \<exists>img. open_image fs (drawable_folder, f) = Inr img \<and> height img = mh))"
proof -
  note m = max_dims_Inr[OF assms]
  have "(\<exists>f \<in> set gs. \<exists>img. open_image fs (drawable_folder, f) = Inr img \<and> width img = mw) \<and>
        (\<exists>f \<in> set gs. \<exists>img. open_image fs (drawable_folder, f) = Inr img \<and> height img = mh)"
    if ne: "gs \<noteq> []"
  proof -
    obtain g where g: "g \<in> set gs" using ne by (cases gs) auto
    then obtain img where "open_image fs (drawable_folder, g) = Inr img"
        "width img \<le> mw" "height img \<le> mh"
      using m by blast
    with g m show ?thesis by (metis le_zero_eq)
  qed
  with m show ?thesis by blast
qed

theorem max_dims_bounds_witness:
  "max_dims (files demo_sys) (goblin_files (files demo_sys)) (0, 0) = Inr (4, 4) \<and>
   (\<exists>f \<in> set (goblin_files (files demo_sys)). \<exists>img.
      open_image (files demo_sys) (drawable_folder, f) = Inr img \<and> height img = 4)"
proof -
  have h: "max_dims (files demo_sys) (goblin_files (files demo_sys)) (0, 0) = Inr (4, 4)"
    by code_simp
  have "goblin_files (files demo_sys) \<noteq> []" by code_simp
  with max_dims_bounds[OF h] h show ?thesis by blast
qed

text \<open>
  C10: \<open>uniform_goblin_bottom.py\<close>, on a folder whose goblin files all open as RGBA
  images, turns every goblin file into an image of the largest width by the largest
  height found by its first pass, leaves every other file alone, and on a second
  run its first pass finds the same size, so the canvas size is stable.
\<close>

theorem uniform_goblin_bottom_stable:
  assumes wf: "wf_fs (files s)"
    and rgba: "\<forall>f \<in> set (goblin_files (files s)). \<exists>img.
       open_image (files s) (drawable_folder, f) = Inr img \<and> mode img = RGBA"
  shows "\<exists>mw mh s'. max_dims (files s) (goblin_files (files s)) (0, 0) = Inr (mw, mh) \<and>
    uniform_goblin_bottom s = Inr s' \<and>
    (\<forall>f \<in> set (goblin_files (files s)). \<exists>c. open_image (files s') (drawable_folder, f) = Inr c \<and>
        mode c = RGBA \<and> width c = mw \<and> height c = mh) \<and>
    (\<forall>q. \<not> (fst q = drawable_folder \<and> snd q \<in> set (goblin_files (files s))) \<longrightarrow>
        map_of (files s') q = map_of (files s) q) \<and>
    max_dims (files s') (goblin_files (files s')) (0, 0) = Inr (mw, mh)"
  using uniform_goblin_bottom_run[OF wf rgba] by blast

theorem uniform_goblin_bottom_stable_witness:
  "wf_fs (files demo_sys) \<and>
   (\<exists>s'. uniform_goblin_bottom demo_sys = Inr s' \<and>
      max_dims (files s') (goblin_files (files s')) (0, 0) = Inr (4, 4))"
proof -
  have wf: "wf_fs (files demo_sys)" by code_simp
  have gs: "goblin_files (files demo_sys) = [''goblin_idle_0001.png'', ''goblin_run_0001.png'']"
    by code_simp
  have rgba: "\<forall>f \<in> set (goblin_files (files demo_sys)). \<exists>img.
      open_image (files demo_sys) (drawable_folder, f) = Inr img \<and> mode img = RGBA"
    unfolding gs by (simp add: open_image_def demo_sys_def sprite_block_def sprite_column_def
      sample_image_def)
  have md: "max_dims (files demo_sys) (goblin_files (files demo_sys)) (0, 0) = Inr (4, 4)"
    by code_simp
  from uniform_goblin_bottom_stable[OF wf rgba] md wf rgba show ?thesis by auto
qed

text \<open>
  C11: \<open>resize_goblin_uniform.py\<close> is not stable under re-running: its canvas is the
  largest dimension plus 20, every goblin file becomes that square, so the next run
  finds that size as its largest dimension and makes a canvas 20 pixels larger again.
\<close>

theorem resize_goblin_uniform_grows:
  assumes wf: "wf_fs (files s)"
    and rgba: "\<forall>f \<in> set (goblin_files (files s)). \<exists>img.
       open_image (files s) (drawable_folder, f) = Inr img \<and> mode img = RGBA"
    and ne: "goblin_files (files s) \<noteq> []"
  shows "\<exists>mw mh s'. max_dims (files s) (goblin_files (files s)) (0, 0) = Inr (mw, mh) \<and>
    resize_goblin_uniform s = Inr s' \<and>
    (\<forall>f \<in> set (goblin_files (files s)). \<exists>c. open_image (files s') (drawable_folder, f) = Inr c \<and>
        width c = max mw mh + 20 \<and> height c = max mw mh + 20) \<and>
    max_dims (files s') (goblin_files (files s')) (0, 0) = Inr (max mw mh + 20, max mw mh + 20)"
proof -
  let ?gs = "goblin_files (files s)"
  have run: "resize_goblin_uniform = (\<lambda>s0. let gs = goblin_files (files s0); s1 = print_msg (Found (length gs)) s0 in
        case max_dims (files s1) gs (0, 0) of Inl e \<Rightarrow> Inl (e, s1)
        | Inr (mw, mh) \<Rightarrow> Inr (print_msg DoneMsg (fold (canvas_step ((\<lambda>a b. (max a b + 20, max a b + 20)) mw mh) 10) gs
             ((\<lambda>a b s. print_msg (CanvasSize (max a b + 20) (max a b + 20)) (print_msg (MaxDims a b) s)) mw mh s1))))"
    unfolding resize_goblin_uniform_def Let_def by (rule refl)
  have M: "\<And>mw mh s. files ((\<lambda>a b s. print_msg (CanvasSize (max a b + 20) (max a b + 20))
      (print_msg (MaxDims a b) s)) mw mh s) = files s"
    by (simp add: print_msg_files)
  from canvas_script_run[OF wf rgba run M]
  obtain mw mh s' where md: "max_dims (files s) ?gs (0, 0) = Inr (mw, mh)"
    and r: "resize_goblin_uniform s = Inr s'" and gf: "goblin_files (files s') = ?gs"
    and each: "\<forall>f \<in> set ?gs. \<exists>img c. open_image (files s) (drawable_folder, f) = Inr img \<and>
        place_on_canvas (max mw mh + 20, max mw mh + 20)
          (bottom_offset (max mw mh + 20, max mw mh + 20) 10 img) img = Inr c \<and>
        open_image (files s') (drawable_folder, f) = Inr c"
    by blast
  have sized: "\<forall>f \<in> set ?gs. \<exists>c. open_image (files s') (drawable_folder, f) = Inr c \<and>
        mode c = RGBA \<and> width c = max mw mh + 20 \<and> height c = max mw mh + 20"
    using canvas_script_sized[OF each] by simp
  have "max_dims (files s') ?gs (0, 0) = Inr (max mw mh + 20, max mw mh + 20)"
    by (rule max_dims_uniform[OF ne]) (use sized in blast)
  with md r gf sized show ?thesis by auto
qed

theorem resize_goblin_uniform_grows_witness:
  "wf_fs (files demo_sys) \<and>
   goblin_files (files demo_sys) \<noteq> [] \<and>
   (\<exists>s'. resize_goblin_uniform demo_sys = Inr s' \<and>
      max_dims (files s') (goblin_files (files s')) (0, 0) = Inr (24, 24))"
proof -
  have wf: "wf_fs (files demo_sys)" by code_simp
  have gs: "goblin_files (files demo_sys) = [''goblin_idle_0001.png'', ''goblin_run_0001.png'']"
    by code_simp
  have rgba: "\<forall>f \<in> set (goblin_files (files demo_sys)). \<exists>img.
      open_image (files demo_sys) (drawable_folder, f) = Inr img \<and> mode img = RGBA"
    unfolding gs by (simp add: open_image_def demo_sys_def sprite_block_def sprite_column_def
      sample_image_def)
  have ne: "goblin_files (files demo_sys) \<noteq> []" by (simp add: gs)
  have md: "max_dims (files demo_sys) (goblin_files (files demo_sys)) (0, 0) = Inr (4, 4)"
    by code_simp
  from resize_goblin_uniform_grows[OF wf rgba ne] md wf rgba ne show ?thesis by auto
qed

text \<open>
  C12: \<open>align_goblin_bottom.py\<close> does not fit a sprite taller than its 227-pixel
  canvas: the offset \<open>227 - h\<close> is negative, Pillow clips the paste, and canvas row
  \<open>y\<close> shows sprite row \<open>y + (h - 227)\<close>, so the top \<open>h - 227\<close> rows of the sprite
  are lost (the bottom alignment is kept).
\<close>

theorem align_clips_tall:
  assumes "mode img = RGBA" "width img \<le> align_canvas" "align_canvas < height img"
    "place_on_canvas (align_canvas, align_canvas)
       (bottom_offset (align_canvas, align_canvas) 0 img) img = Inr out"
    "x < align_canvas" "y < align_canvas"
  shows "pixel_at out x y =
    (if (align_canvas - width img) div 2 \<le> x \<and> x < (align_canvas - width img) div 2 + width img
     then (let p = pixel_at img (x - (align_canvas - width img) div 2) (y + (height img - align_canvas))
           in blend_px (alpha p) transparent p)
     else transparent)"
proof -
  have ox: "nat (int x - fst (bottom_offset (align_canvas, align_canvas) 0 img)) =
      x - (align_canvas - width img) div 2"
    using nat_sub_half_offset[OF assms(2)] by (simp add: bottom_offset_def)
  have oy: "nat (int y - snd (bottom_offset (align_canvas, align_canvas) 0 img)) =
      y + (height img - align_canvas)"
    using assms(3) by (simp add: bottom_offset_def)
  show ?thesis
    unfolding pixel_at_place_on_canvas[OF assms(4,1,5,6)]
      in_box_bottom_offset_tall[OF assms(2,3,6)] ox oy ..
qed

theorem align_clips_tall_witness:
  "\<exists>out. place_on_canvas (align_canvas, align_canvas)
      (bottom_offset (align_canvas, align_canvas) 0 tall_sprite) tall_sprite = Inr out \<and>
    alpha (pixel_at tall_sprite 0 0) = 255 \<and>
    list_all (\<lambda>y. list_all (\<lambda>x. pixel_at out x y = transparent) [0..<align_canvas])
      [0..<align_canvas]"
proof -
  have m: "mode tall_sprite = RGBA" and w: "width tall_sprite \<le> align_canvas"
    and h: "align_canvas < height tall_sprite"
    by (simp_all add: tall_sprite_def sample_image_def align_canvas_def)
  obtain out where out: "place_on_canvas (align_canvas, align_canvas)
      (bottom_offset (align_canvas, align_canvas) 0 tall_sprite) tall_sprite = Inr out"
    using place_on_canvas_rgba[OF m] by blast
  have rows: "pixel_at tall_sprite 0 (y + 1) = transparent" for y
    by (simp add: tall_sprite_def sample_image_def pixel_at_def nth_Cons')
  have "pixel_at out x y = transparent" if "x < align_canvas" "y < align_canvas" for x y
    using align_clips_tall[OF m w h out that]
    by (simp add: tall_sprite_def sample_image_def align_canvas_def pixel_at_def nth_Cons' Let_def
        transparent_def blend_px_def)
  then have "list_all (\<lambda>y. list_all (\<lambda>x. pixel_at out x y = transparent) [0..<align_canvas])
      [0..<align_canvas]"
    by (simp add: list_all_iff)
  moreover have "alpha (pixel_at tall_sprite 0 0) = 255"
    by (simp add: tall_sprite_def sample_image_def pixel_at_def solid_def)
  ultimately show ?thesis using out by blast
qed

text \<open>
  C13: the first pass of the three canvas scripts opens every goblin file outside
  any \<open>try\<close>: when one of them cannot be opened, each script stops with that
  exception after printing only the file count, and no file has been written.
\<close>

theorem canvas_scripts_abort:
  assumes "f \<in> set (goblin_files (files s))" "open_image (files s) (drawable_folder, f) = Inl e"
  shows "\<exists>e'. align_goblin_bottom s = Inl (e', print_msg (Found (length (goblin_files (files s)))) s) \<and>
      resize_goblin_uniform s = Inl (e', print_msg (Found (length (goblin_files (files s)))) s) \<and>
      uniform_goblin_bottom s = Inl (e', print_msg (Found (length (goblin_files (files s)))) s)"
proof -
  obtain e' where e': "max_dims (files s) (goblin_files (files s)) (0, 0) = Inl e'"
    using max_dims_error[OF assms] by blast
  then show ?thesis
    by (simp add: align_goblin_bottom_def resize_goblin_uniform_def uniform_goblin_bottom_def
        Let_def print_msg_files)
qed

theorem canvas_scripts_abort_witness:
  "\<exists>e'. align_goblin_bottom broken_sys = Inl (e', print_msg (Found 3) broken_sys) \<and>
     resize_goblin_uniform broken_sys = Inl (e', print_msg (Found 3) broken_sys) \<and>
     uniform_goblin_bottom broken_sys = Inl (e', print_msg (Found 3) broken_sys)"
proof -
  have gs: "goblin_files (files broken_sys) =
      [''goblin_idle_0001.png'', ''goblin_run_0001.png'', ''goblin_hurt_0001.png'']"
    by code_simp
  have f: "''goblin_hurt_0001.png'' \<in> set (goblin_files (files broken_sys))" by (simp add: gs)
  have o: "open_image (files broken_sys) (drawable_folder, ''goblin_hurt_0001.png'') =
      Inl (UnidentifiedImage (drawable_folder, ''goblin_hurt_0001.png''))"
    by code_simp
  have n: "length (goblin_files (files broken_sys)) = 3" by (simp add: gs)
  from canvas_scripts_abort[OF f o] show ?thesis unfolding n .
qed

text \<open>
  C25: \<open>uniform_goblin_bottom.py\<close> keeps its canvas size on a second run (C10) but
  not its pixels: the second run pastes each sprite with itself as mask once more,
  so each alpha \<open>a\<close> becomes \<open>round(a * a / 255)\<close> again, and every
  half-transparent pixel (\<open>0 < a < 255\<close>) becomes strictly more transparent.
  Re-running the script fades the sprites' anti-aliased edges a little more each time.
\<close>

theorem uniform_goblin_bottom_rerun_fades:
  assumes wf: "wf_fs (files s)"
    and rgba: "\<forall>f \<in> set (goblin_files (files s)). \<exists>img.
       open_image (files s) (drawable_folder, f) = Inr img \<and> mode img = RGBA"
  shows "\<exists>s1 s2. uniform_goblin_bottom s = Inr s1 \<and> uniform_goblin_bottom s1 = Inr s2 \<and>
    (\<forall>f \<in> set (goblin_files (files s)). \<exists>c1 c2.
       open_image (files s1) (drawable_folder, f) = Inr c1 \<and> open_image (files s2) (drawable_folder, f) = Inr c2 \<and>
       width c2 = width c1 \<and> height c2 = height c1 \<and>
       (\<forall>x < width c1. \<forall>y < height c1.
          unat (alpha (pixel_at c2 x y)) =
            (unat (alpha (pixel_at c1 x y)) * unat (alpha (pixel_at c1 x y)) + 127) div 255 \<and>
          (0 < unat (alpha (pixel_at c1 x y)) \<and> unat (alpha (pixel_at c1 x y)) < 255 \<longrightarrow>
             unat (alpha (pixel_at c2 x y)) < unat (alpha (pixel_at c1 x y)))))"
proof -
  let ?gs = "goblin_files (files s)"
  from uniform_goblin_bottom_run[OF wf rgba] obtain mw mh s1 where
    r1: "uniform_goblin_bottom s = Inr s1"
    and sized: "\<forall>f \<in> set ?gs. \<exists>c. open_image (files s1) (drawable_folder, f) = Inr c \<and>
        mode c = RGBA \<and> width c = mw \<and> height c = mh"
    and md1: "max_dims (files s1) (goblin_files (files s1)) (0, 0) = Inr (mw, mh)"
    and gf1: "goblin_files (files s1) = ?gs"
    by blast
  have wf1: "wf_fs (files s1)" using canvas_scripts_wf[OF wf] r1 by simp
  have rgba1: "\<forall>f \<in> set (goblin_files (files s1)). \<exists>img.
       open_image (files s1) (drawable_folder, f) = Inr img \<and> mode img = RGBA"
    using sized gf1 by auto
  from uniform_goblin_bottom_run[OF wf1 rgba1] obtain mw2 mh2 s2 where
    md2: "max_dims (files s1) (goblin_files (files s1)) (0, 0) = Inr (mw2, mh2)"
    and r2: "uniform_goblin_bottom s1 = Inr s2"
    and each2: "\<forall>f \<in> set (goblin_files (files s1)). \<exists>img c. open_image (files s1) (drawable_folder, f) = Inr img \<and>
        place_on_canvas (mw2, mh2) (bottom_offset (mw2, mh2) 0 img) img = Inr c \<and>
        open_image (files s2) (drawable_folder, f) = Inr c"
    by blast
  have m: "mw2 = mw" "mh2 = mh" using md1 md2 by simp_all
  have "\<exists>c1 c2.
       open_image (files s1) (drawable_folder, f) = Inr c1 \<and> open_image (files s2) (drawable_folder, f) = Inr c2 \<and>
       width c2 = width c1 \<and> height c2 = height c1 \<and>
       (\<forall>x < width c1. \<forall>y < height c1.
          unat (alpha (pixel_at c2 x y)) =
            (unat (alpha (pixel_at c1 x y)) * unat (alpha (pixel_at c1 x y)) + 127) div 255 \<and>
          (0 < unat (alpha (pixel_at c1 x y)) \<and> unat (alpha (pixel_at c1 x y)) < 255 \<longrightarrow>
             unat (alpha (pixel_at c2 x y)) < unat (alpha (pixel_at c1 x y))))"
    if f: "f \<in> set ?gs" for f
  proof -
    obtain c1 where o1: "open_image (files s1) (drawable_folder, f) = Inr c1"
      and c1: "mode c1 = RGBA" "width c1 = mw" "height c1 = mh"
      using sized f by blast
    obtain c2 where pc: "place_on_canvas (mw, mh) (bottom_offset (mw, mh) 0 c1) c1 = Inr c2"
      and o2: "open_image (files s2) (drawable_folder, f) = Inr c2"
      using each2 f gf1 o1 m by fastforce
    have pc': "place_on_canvas (width c1, height c1) (bottom_offset (width c1, height c1) 0 c1) c1 = Inr c2"
      using pc c1 by simp
    have sz: "width c2 = width c1" "height c2 = height c1"
      using place_on_canvas_fields[OF pc'] by simp_all
    show ?thesis
      using o1 o2 sz place_same_size_alpha[OF pc' c1(1)] alpha_fades by auto
  qed
  with r1 r2 show ?thesis by blast
qed

theorem uniform_goblin_bottom_rerun_fades_witness:
  "\<exists>s1 s2. uniform_goblin_bottom fade_sys = Inr s1 \<and> uniform_goblin_bottom s1 = Inr s2 \<and>
     (\<exists>c1 c2. open_image (files s1) (drawable_folder, ''goblin_idle_0001.png'') = Inr c1 \<and>
        open_image (files s2) (drawable_folder, ''goblin_idle_0001.png'') = Inr c2 \<and>
        unat (alpha (pixel_at c1 0 0)) = 64 \<and> unat (alpha (pixel_at c2 0 0)) = 16)"
proof -
  have wf: "wf_fs (files fade_sys)" by code_simp
  have gs: "goblin_files (files fade_sys) = [''goblin_idle_0001.png'']" by code_simp
  have rgba: "\<forall>f \<in> set (goblin_files (files fade_sys)). \<exists>img.
       open_image (files fade_sys) (drawable_folder, f) = Inr img \<and> mode img = RGBA"
    unfolding gs by (simp add: open_image_def fade_sys_def half_alpha_sprite_def sample_image_def)
  have a1: "(case uniform_goblin_bottom fade_sys of
      Inr s1 \<Rightarrow> (case open_image (files s1) (drawable_folder, ''goblin_idle_0001.png'') of
                  Inr c \<Rightarrow> unat (alpha (pixel_at c 0 0)) = 64 \<and> width c = 1 \<and> height c = 1 | _ \<Rightarrow> False)
    | _ \<Rightarrow> False)"
    by code_simp
  from uniform_goblin_bottom_rerun_fades[OF wf rgba] obtain s1 s2 where
    r: "uniform_goblin_bottom fade_sys = Inr s1" "uniform_goblin_bottom s1 = Inr s2"
    and all: "\<forall>f \<in> set (goblin_files (files fade_sys)). \<exists>c1 c2.
       open_image (files s1) (drawable_folder, f) = Inr c1 \<and> open_image (files s2) (drawable_folder, f) = Inr c2 \<and>
       width c2 = width c1 \<and> height c2 = height c1 \<and>
       (\<forall>x < width c1. \<forall>y < height c1.
          unat (alpha (pixel_at c2 x y)) =
            (unat (alpha (pixel_at c1 x y)) * unat (alpha (pixel_at c1 x y)) + 127) div 255 \<and>
          (0 < unat (alpha (pixel_at c1 x y)) \<and> unat (alpha (pixel_at c1 x y)) < 255 \<longrightarrow>
             unat (alpha (pixel_at c2 x y)) < unat (alpha (pixel_at c1 x y))))"
    by blast
  obtain c1 c2 where o: "open_image (files s1) (drawable_folder, ''goblin_idle_0001.png'') = Inr c1"
    "open_image (files s2) (drawable_folder, ''goblin_idle_0001.png'') = Inr c2"
    and px: "\<forall>x < width c1. \<forall>y < height c1. unat (alpha (pixel_at c2 x y)) =
            (unat (alpha (pixel_at c1 x y)) * unat (alpha (pixel_at c1 x y)) + 127) div 255"
    using all gs by auto
  have c1: "unat (alpha (pixel_at c1 0 0)) = 64" "width c1 = 1" "height c1 = 1"
    using a1 r(1) o(1) by simp_all
  have "unat (alpha (pixel_at c2 0 0)) = 16" using px c1 by simp
  with r o c1 show ?thesis by blast
qed

text \<open>
  C29: each of the three canvas scripts prints, after \<open>Found N goblin files\<close>,
  either nothing more (the first pass raised, which ends the script) or its two
  header lines, exactly one line (processed or error) per goblin file, in
  listing order, and \<open>Done!\<close>: the second pass reaches every file and ends.
\<close>

theorem canvas_scripts_console:
  assumes "run \<in> {align_goblin_bottom, resize_goblin_uniform, uniform_goblin_bottom}"
  shows "case run s of
      Inl (e, s1) \<Rightarrow> console s1 = console s @ [Found (length (goblin_files (files s)))]
    | Inr s1 \<Rightarrow> (\<exists>hdr ms. console s1 = console s @ Found (length (goblin_files (files s))) # hdr @ ms @ [DoneMsg] \<and>
        length hdr = 2 \<and> map msg_file ms = map Some (goblin_files (files s)))"
proof -
  let ?gs = "goblin_files (files s)"
  let ?s1 = "print_msg (Found (length ?gs)) s"
  show ?thesis
  proof (rule canvas_script_cases[OF assms, of s])
    fix e assume "run s = Inl (e, ?s1)"
    then show ?thesis by (simp add: print_msg_def)
  next
    fix sz lift m1 m2
    assume "run s = Inr (print_msg DoneMsg (fold (canvas_step sz lift) ?gs (print_msg m2 (print_msg m1 ?s1))))"
    then show ?thesis using canvas_pass_console[of sz lift ?gs m2 m1 s] by simp
  qed
qed

theorem canvas_scripts_console_witness:
  "case uniform_goblin_bottom fade_sys of
      Inl _ \<Rightarrow> False
    | Inr s1 \<Rightarrow> (\<exists>hdr ms. console s1 = Found 1 # hdr @ ms @ [DoneMsg] \<and>
        length hdr = 2 \<and> map msg_file ms = [Some ''goblin_idle_0001.png''])"
proof -
  have gs: "goblin_files (files fade_sys) = [''goblin_idle_0001.png'']" by code_simp
  have c: "console fade_sys = []" by (simp add: fade_sys_def)
  have r: "case uniform_goblin_bottom fade_sys of Inr _ \<Rightarrow> True | Inl _ \<Rightarrow> False" by code_simp
  then obtain s1 where r1: "uniform_goblin_bottom fade_sys = Inr s1" by (auto split: sum.splits)
  from canvas_scripts_console[of uniform_goblin_bottom fade_sys] show ?thesis
    unfolding r1 gs c by simp
qed

end
