(* ===== verification/Hurt.thy ===== *)
theory Hurt
  imports Canvas "HOL-Library.List_Lexorder" "HOL-Library.Char_ord"
begin

text \<open>
  The two scripts that build the goblin's hurt animation from the frames of the
  \<open>Goblin/Atk2\<close> folder: \<open>extract_goblin_hurt.py\<close> (the first five frames in
  sorted order) and \<open>extract_goblin_hurt_full.py\<close> (the frames whose name starts
  with \<open>01\<close> and whose first four characters, read by Python's \<open>int()\<close>, are at
  most 110; it first deletes every \<open>goblin_hurt_*\<close> file). Both tight-crop each
  frame, paste it bottom-centred on a 201 x 201 transparent canvas and save it as
  \<open>goblin_hurt_{i:04d}.png\<close>, \<open>i\<close> counting the selected frames from 1. Python's
  \<open>int()\<close> on a string and the \<open>{:04d}\<close> format are modelled here on ASCII
  strings; \<open>sorted\<close> on strings is the lexicographic order of
  \<open>List_Lexorder\<close> on characters ordered by code.
\<close>

section \<open>Python's int() and the {:04d} format\<close>

text \<open>\<open>str.isspace\<close> and \<open>str.isdigit\<close> on ASCII characters.\<close>

definition is_space :: "char \<Rightarrow> bool" where
  "is_space c \<longleftrightarrow> of_char c = (32::nat) \<or> (9 \<le> (of_char c::nat) \<and> (of_char c::nat) \<le> 13) \<or>
     (28 \<le> (of_char c::nat) \<and> (of_char c::nat) \<le> 31)"

definition is_digit :: "char \<Rightarrow> bool" where
  "is_digit c \<longleftrightarrow> 48 \<le> (of_char c::nat) \<and> (of_char c::nat) \<le> 57"

definition digit_val :: "char \<Rightarrow> nat" where
  "digit_val c = of_char c - 48"

definition py_strip :: "string \<Rightarrow> string" where
  "py_strip s = rev (dropWhile is_space (rev (dropWhile is_space s)))"

text \<open>The digits of an integer literal: digits, with single underscores between
  digits (\<open>int('1_0') = 10\<close>; \<open>'_1'\<close>, \<open>'1_'\<close> and \<open>'1__0'\<close> are errors).\<close>

fun digits_ok :: "string \<Rightarrow> bool" where
  "digits_ok [] = False"
| "digits_ok [c] = is_digit c"
| "digits_ok (c # d # r) =
     (is_digit c \<and> (if d = CHR ''_'' then digits_ok r else digits_ok (d # r)))"

definition digits_val :: "string \<Rightarrow> nat" where
  "digits_val r = fold (\<lambda>c n. 10 * n + digit_val c) (filter is_digit r) 0"

text \<open>\<open>int(s)\<close>: surrounding whitespace, an optional sign, the digits; a
  \<open>ValueError\<close> otherwise.\<close>

definition py_int :: "string \<Rightarrow> error + int" where
  "py_int s =
     (let t = py_strip s;
          (sg, r) = (case t of c # r \<Rightarrow> if c = CHR ''-'' then (-1, r) else if c = CHR ''+'' then (1, r) else (1, t)
                     | [] \<Rightarrow> (1, t))
      in if digits_ok r then Inr (sg * int (digits_val r)) else Inl (InvalidIntLiteral s))"

text \<open>\<open>str(n)\<close> for a natural number, and \<open>f'{n:04d}'\<close>: zero-padded to four digits,
  longer numbers in full.\<close>

fun nat_digits :: "nat \<Rightarrow> string" where
  "nat_digits n = (if n < 10 then [char_of (48 + n)] else nat_digits (n div 10) @ [char_of (48 + n mod 10)])"

definition fmt04 :: "nat \<Rightarrow> string" where
  "fmt04 n = replicate (4 - length (nat_digits n)) CHR ''0'' @ nat_digits n"

definition hurt_name :: "nat \<Rightarrow> string" where
  "hurt_name i = ''goblin_hurt_'' @ fmt04 i @ ''.png''"

section \<open>Paths and frame lists\<close>

definition atk2_folder :: string where
  "atk2_folder = win_path [''D:'', ''QuizBattle'', ''app'', ''src'', ''main'', ''res'', ''drawable'', ''Goblin'', ''Atk2'']"

text \<open>\<open>sorted([f for f in os.listdir(source_folder) if f.endswith('.png')])\<close>\<close>

definition atk2_pngs :: "fs \<Rightarrow> string list" where
  "atk2_pngs fs = sort (filter (\<lambda>f. endswith f ''.png'') (listdir atk2_folder fs))"

text \<open>Line 10 of \<open>extract_goblin_hurt_full.py\<close>:
  \<open>[f for f in all_files if f.startswith('01') and int(f[0:4]) <= 110]\<close>; the
  first \<open>int()\<close> that raises ends the comprehension, and the script.\<close>

fun select_hurt :: "string list \<Rightarrow> error + string list" where
  "select_hurt [] = Inr []"
| "select_hurt (f # fs) =
     (if startswith f ''01'' then
        (case py_int (take 4 f) of
           Inl e \<Rightarrow> Inl e
         | Inr n \<Rightarrow> if n \<le> 110 then (case select_hurt fs of Inl e \<Rightarrow> Inl e | Inr hs \<Rightarrow> Inr (f # hs))
                    else select_hurt fs)
      else select_hurt fs)"

text \<open>\<open>enumerate(xs, start=1)\<close>\<close>

definition enumerate1 :: "'a list \<Rightarrow> (nat \<times> 'a) list" where
  "enumerate1 xs = zip [1..<Suc (length xs)] xs"

section \<open>One hurt frame\<close>

definition hurt_canvas :: nat where
  "hurt_canvas = 201"

text \<open>Lines 31--47 (28--55 of the full script): convert, \<open>getbbox\<close>, crop (the
  tight crop of \<open>crop_goblin_tight.py\<close>), then the bottom-centred paste on the
  201 x 201 canvas. \<open>None\<close> is the "No content" branch.\<close>

definition hurt_frame :: "image \<Rightarrow> (error + image) option" where
  "hurt_frame img =
     (case tight_crop img of
        None \<Rightarrow> None
      | Some (Inl e) \<Rightarrow> Some (Inl e)
      | Some (Inr cr) \<Rightarrow>
          Some (place_on_canvas (hurt_canvas, hurt_canvas) (bottom_offset (hurt_canvas, hurt_canvas) 0 cr) cr))"

text \<open>The body of the frame loop, inside its \<open>try\<close>.\<close>

fun hurt_step :: "nat \<times> string \<Rightarrow> sys \<Rightarrow> sys" where
  "hurt_step (i, f) s =
     (case open_image (files s) (atk2_folder, f) of
        Inl e \<Rightarrow> print_msg (Failed f e) s
      | Inr img \<Rightarrow>
          (case hurt_frame img of
             None \<Rightarrow> print_msg (Skipped f) s
           | Some (Inl e) \<Rightarrow> print_msg (Failed f e) s
           | Some (Inr c) \<Rightarrow>
               print_msg (Created (hurt_name i) f)
                 (s\<lparr>files := save_png (drawable_folder, hurt_name i) c (files s)\<rparr>)))"

definition hurt_pass :: "string list \<Rightarrow> sys \<Rightarrow> sys" where
  "hurt_pass hs s = fold hurt_step (enumerate1 hs) s"

section \<open>The scripts\<close>

definition extract_goblin_hurt :: "sys \<Rightarrow> sys" where
  "extract_goblin_hurt s0 =
     (let atk = take 5 (atk2_pngs (files s0));
          s1 = print_msg (Extracting (length atk)) s0;
          s2 = print_msg (CanvasSize hurt_canvas hurt_canvas) s1
      in print_msg (DoneCount (length atk)) (hurt_pass atk s2))"

text \<open>Lines 21--24 of the full script: \<open>os.remove\<close> of every \<open>goblin_hurt_\<close> file,
  outside any \<open>try\<close>.\<close>

fun remove_all :: "string list \<Rightarrow> sys \<Rightarrow> error \<times> sys + sys" where
  "remove_all [] s = Inr s"
| "remove_all (f # fs) s =
     (case remove_file (drawable_folder, f) (files s) of
        Inl e \<Rightarrow> Inl (e, s)
      | Inr fs' \<Rightarrow> remove_all fs (print_msg (Deleted f) (s\<lparr>files := fs'\<rparr>)))"

definition old_hurt :: "fs \<Rightarrow> string list" where
  "old_hurt fs = filter (\<lambda>f. startswith f ''goblin_hurt_'') (listdir drawable_folder fs)"

definition extract_goblin_hurt_full :: "sys \<Rightarrow> error \<times> sys + sys" where
  "extract_goblin_hurt_full s0 =
     (case select_hurt (atk2_pngs (files s0)) of
        Inl e \<Rightarrow> Inl (e, s0)
      | Inr hs \<Rightarrow>
          (let s2 = print_msg (CanvasSize hurt_canvas hurt_canvas) (print_msg (Extracting (length hs)) s0)
           in bind_run (remove_all (old_hurt (files s2)) s2)
                (\<lambda>s3. Inr (print_msg (DoneCount (length hs)) (hurt_pass hs (print_msg Blank s3))))))"

section \<open>What the frame loop should produce\<close>

text \<open>The image a selected frame yields, if any: it opens and has content.\<close>

definition frame_result :: "fs \<Rightarrow> string \<Rightarrow> image option" where
  "frame_result fs f =
     (case open_image fs (atk2_folder, f) of
        Inr img \<Rightarrow> (case hurt_frame img of Some (Inr c) \<Rightarrow> Some c | _ \<Rightarrow> None)
      | Inl _ \<Rightarrow> None)"

text \<open>The output files of the loop over numbered frames \<open>ps\<close>, as a list of
  names in the drawable folder and images: \<open>goblin_hurt_{i:04d}.png\<close> for each
  frame \<open>i\<close> that yields an image; \<open>hurt_outputs\<close> is its map for the frames
  \<open>hs\<close> numbered from 1.\<close>

definition hurt_out_list :: "fs \<Rightarrow> (nat \<times> string) list \<Rightarrow> (string \<times> image) list" where
  "hurt_out_list fs ps =
     concat (map (\<lambda>(i, f). case frame_result fs f of None \<Rightarrow> [] | Some c \<Rightarrow> [(hurt_name i, c)]) ps)"

definition hurt_outputs :: "fs \<Rightarrow> string list \<Rightarrow> string \<Rightarrow> image option" where
  "hurt_outputs fs hs = map_of (hurt_out_list fs (enumerate1 hs))"

text \<open>Frame files as the asset pack names them: four digits and \<open>.png\<close>.\<close>

definition is_frame_name :: "string \<Rightarrow> bool" where
  "is_frame_name f \<longleftrightarrow> length f = 8 \<and> list_all is_digit (take 4 f) \<and> drop 4 f = ''.png''"

section \<open>Sample folders\<close>

text \<open>An Atk2 folder with frames 0099--0102, frame 0101 empty, and a stale
  \<open>goblin_hurt_0009.png\<close> from an earlier run; and one with a file \<open>01.png\<close>
  whose name prefix \<open>01.p\<close> is no integer.\<close>

definition blank_sprite :: image where
  "blank_sprite = sample_image [[transparent, transparent]]"

definition hurt_sys :: sys where
  "hurt_sys = \<lparr>files =
     [((atk2_folder, ''0100.png''), PngFile sprite_block), ((atk2_folder, ''0102.png''), PngFile sprite_column),
      ((atk2_folder, ''0101.png''), PngFile blank_sprite), ((atk2_folder, ''0099.png''), PngFile sprite_block),
      ((drawable_folder, ''goblin_hurt_0009.png''), PngFile sprite_block)],
     console = []\<rparr>"

definition bad_name_sys :: sys where
  "bad_name_sys = hurt_sys\<lparr>files := ((atk2_folder, ''01.png''), PngFile sprite_block) # files hurt_sys\<rparr>"

section \<open>Lemmas: int() and the {:04d} format\<close>

declare nat_digits.simps [simp del]

lemma digit_not_space: "is_digit c \<Longrightarrow> \<not> is_space c"
  by (simp add: is_digit_def is_space_def)

lemma digits_ok_digits: "s \<noteq> [] \<Longrightarrow> list_all is_digit s \<Longrightarrow> digits_ok s"
proof (induction s rule: digits_ok.induct)
  case (3 c d r)
  then have "d \<noteq> CHR ''_''" by (auto simp: is_digit_def)
  with 3 show ?case by simp
qed simp_all

lemma py_strip_digits: "s \<noteq> [] \<Longrightarrow> list_all is_digit s \<Longrightarrow> py_strip s = s"
proof -
  assume ne: "s \<noteq> []" and d: "list_all is_digit s"
  have "dropWhile is_space s = s"
    using ne d by (cases s) (auto simp: digit_not_space)
  moreover have "dropWhile is_space (rev s) = rev s"
    using ne d by (cases "rev s") (auto simp: digit_not_space list_all_iff dest: arg_cong[of _ _ set])
  ultimately show ?thesis by (simp add: py_strip_def)
qed

lemma py_int_digits:
  assumes "s \<noteq> []" "list_all is_digit s"
  shows "py_int s = Inr (int (digits_val s))"
proof -
  obtain c r where s: "s = c # r" using assms(1) by (cases s) auto
  have "c \<noteq> CHR ''-''" "c \<noteq> CHR ''+''" using assms(2) by (auto simp: s is_digit_def)
  then show ?thesis
    using digits_ok_digits[OF assms] py_strip_digits[OF assms] by (simp add: py_int_def s)
qed

lemma digit_char_of: "n < 10 \<Longrightarrow> is_digit (char_of (48 + n)) \<and> digit_val (char_of (48 + n)) = n"
  by (simp add: is_digit_def digit_val_def of_char_of)

lemma nat_digits_digits: "nat_digits n \<noteq> [] \<and> list_all is_digit (nat_digits n)"
proof (induction n rule: nat_digits.induct)
  case (1 n)
  have "n mod 10 < 10" by simp
  have eq: "nat_digits n = (if n < 10 then [char_of (48 + n)]
      else nat_digits (n div 10) @ [char_of (48 + n mod 10)])" by (rule nat_digits.simps)
  with 1 \<open>n mod 10 < 10\<close> show ?case unfolding eq by (simp add: digit_char_of)
qed

lemma digits_val_snoc: "is_digit c \<Longrightarrow> digits_val (s @ [c]) = 10 * digits_val s + digit_val c"
  by (simp add: digits_val_def)

lemma digits_val_nat_digits: "digits_val (nat_digits n) = n"
proof (induction n rule: nat_digits.induct)
  case (1 n)
  show ?case
  proof (cases "n < 10")
    case True
    then show ?thesis using digit_char_of[OF True] by (subst nat_digits.simps) (simp add: digits_val_def)
  next
    case False
    have "n mod 10 < 10" by simp
    from digit_char_of[OF this] 1[OF False] False show ?thesis
      by (subst nat_digits.simps) (simp add: digits_val_snoc)
  qed
qed

lemma digits_val_zeros: "digits_val (replicate k CHR ''0'' @ s) = digits_val s"
proof -
  have z: "fold (\<lambda>c n. 10 * n + digit_val c) (replicate k CHR ''0'') 0 = 0"
    by (induction k) (simp_all add: digit_val_def)
  have "is_digit CHR ''0''" by (simp add: is_digit_def)
  then show ?thesis using z by (simp add: digits_val_def)
qed

lemma fmt04_digits: "fmt04 n \<noteq> [] \<and> list_all is_digit (fmt04 n)"
  using nat_digits_digits[of n] by (auto simp: fmt04_def is_digit_def list_all_iff set_replicate_conv_if)

lemma py_int_fmt04_helper: "py_int (fmt04 n) = Inr (int n)"
  using fmt04_digits[of n] py_int_digits[of "fmt04 n"]
  by (simp add: fmt04_def digits_val_zeros digits_val_nat_digits)

lemma hurt_name_inj: "hurt_name i = hurt_name j \<longleftrightarrow> i = j"
proof
  assume "hurt_name i = hurt_name j"
  then have "fmt04 i = fmt04 j" by (simp add: hurt_name_def)
  then have "py_int (fmt04 i) = py_int (fmt04 j)" by simp
  then show "i = j" by (simp add: py_int_fmt04_helper)
qed simp

lemma hurt_name_prefix: "startswith (hurt_name i) ''goblin_hurt_''"
  by (simp add: hurt_name_def startswith_def)

section \<open>Lemmas: frame selection\<close>

lemma digit_cases:
  assumes "is_digit a"
  shows "(a = CHR ''0'' \<longleftrightarrow> digit_val a = 0) \<and> (a = CHR ''1'' \<longleftrightarrow> digit_val a = 1) \<and> digit_val a \<le> 9"
proof -
  have z: "a = CHR ''0'' \<longleftrightarrow> (of_char a :: nat) = 48" and o: "a = CHR ''1'' \<longleftrightarrow> (of_char a :: nat) = 49"
    by (simp_all flip: of_char_eq_iff[where ?'a = nat])
  show ?thesis using assms unfolding z o by (auto simp: is_digit_def digit_val_def)
qed

lemma frame_window:
  fixes A B C E :: nat
  assumes "A \<le> 9" "B \<le> 9" "C \<le> 9" "E \<le> 9"
  shows "(A = 0 \<and> B = 1 \<and> int (1000 * A + 100 * B + 10 * C + E) \<le> 110) \<longleftrightarrow>
    (100 \<le> 1000 * A + 100 * B + 10 * C + E \<and> 1000 * A + 100 * B + 10 * C + E \<le> 110)"
proof
  assume "A = 0 \<and> B = 1 \<and> int (1000 * A + 100 * B + 10 * C + E) \<le> 110"
  then show "100 \<le> 1000 * A + 100 * B + 10 * C + E \<and> 1000 * A + 100 * B + 10 * C + E \<le> 110" by simp
next
  assume h: "100 \<le> 1000 * A + 100 * B + 10 * C + E \<and> 1000 * A + 100 * B + 10 * C + E \<le> 110"
  then have "A = 0" by simp
  moreover have "B = 1" using h assms \<open>A = 0\<close> by simp
  ultimately show "A = 0 \<and> B = 1 \<and> int (1000 * A + 100 * B + 10 * C + E) \<le> 110" using h by simp
qed

lemma frame_name_select:
  assumes "is_frame_name f"
  shows "py_int (take 4 f) = Inr (int (digits_val (take 4 f))) \<and>
    (startswith f ''01'' \<and> int (digits_val (take 4 f)) \<le> 110 \<longleftrightarrow>
     100 \<le> digits_val (take 4 f) \<and> digits_val (take 4 f) \<le> 110)"
proof -
  obtain a b c e r where f: "f = a # b # c # e # r"
    using assms unfolding is_frame_name_def by (auto simp: numeral_eq_Suc length_Suc_conv)
  have d: "is_digit a" "is_digit b" "is_digit c" "is_digit e"
    using assms by (simp_all add: is_frame_name_def f)
  have v: "digits_val (take 4 f) = 1000 * digit_val a + 100 * digit_val b + 10 * digit_val c + digit_val e"
    using d by (simp add: f digits_val_def)
  have sw: "startswith f ''01'' \<longleftrightarrow> a = CHR ''0'' \<and> b = CHR ''1''"
    by (simp add: f startswith_def)
  have p: "py_int (take 4 f) = Inr (int (digits_val (take 4 f)))"
    using d by (intro py_int_digits) (simp_all add: f)
  have "a = CHR ''0'' \<and> b = CHR ''1'' \<longleftrightarrow> digit_val a = 0 \<and> digit_val b = 1"
    using digit_cases[OF d(1)] digit_cases[OF d(2)] by simp
  then show ?thesis
    unfolding p sw v using frame_window digit_cases[OF d(1)] digit_cases[OF d(2)] digit_cases[OF d(3)]
      digit_cases[OF d(4)] by (simp only: sum.inject conj_assoc simp_thms)
qed

text \<open>
  C19: on a folder of frames named as the asset pack names them (four digits and
  \<open>.png\<close>), the selection of \<open>extract_goblin_hurt_full.py\<close> keeps exactly the
  frames numbered 100 to 110, in their listed order.
\<close>

theorem select_hurt_frames:
  "list_all is_frame_name fs \<Longrightarrow>
     select_hurt fs = Inr (filter (\<lambda>f. 100 \<le> digits_val (take 4 f) \<and> digits_val (take 4 f) \<le> 110) fs)"
proof (induction fs)
  case (Cons f fs)
  then have IH: "select_hurt fs = Inr (filter (\<lambda>f. 100 \<le> digits_val (take 4 f) \<and> digits_val (take 4 f) \<le> 110) fs)"
    and fr: "is_frame_name f" by simp_all
  show ?case using frame_name_select[OF fr] IH by auto
qed simp

theorem select_hurt_frames_witness:
  "select_hurt [''0099.png'', ''0100.png'', ''0110.png'', ''0111.png'', ''0205.png''] =
     Inr [''0100.png'', ''0110.png'']"
proof -
  have h: "list_all is_frame_name [''0099.png'', ''0100.png'', ''0110.png'', ''0111.png'', ''0205.png'']"
    by code_simp
  have f: "filter (\<lambda>f. 100 \<le> digits_val (take 4 f) \<and> digits_val (take 4 f) \<le> 110)
      [''0099.png'', ''0100.png'', ''0110.png'', ''0111.png'', ''0205.png''] = [''0100.png'', ''0110.png'']"
    by code_simp
  show ?thesis using select_hurt_frames[OF h] unfolding f .
qed

text \<open>Python's \<open>int()\<close> accepts an underscore between digits, so a file \<open>01_5.png\<close>
  passes the filter as frame 15.\<close>

lemma select_hurt_underscore: "select_hurt [''01_5.png'', ''0111.png''] = Inr [''01_5.png'']"
  by code_simp

lemma select_hurt_Inl_iff:
  "(\<exists>e. select_hurt fs = Inl e) \<longleftrightarrow> (\<exists>f \<in> set fs. startswith f ''01'' \<and> (\<exists>e. py_int (take 4 f) = Inl e))"
proof (induction fs)
  case (Cons f fs)
  then show ?case by (cases "py_int (take 4 f)"; cases "select_hurt fs") auto
qed simp

section \<open>Lemmas: deleting the old frames\<close>

lemma remove_all_Inr:
  assumes "distinct gs" "\<forall>g \<in> set gs. map_of (files s) (drawable_folder, g) \<noteq> None"
  shows "\<exists>s'. remove_all gs s = Inr s' \<and>
    map_of (files s') = (\<lambda>q. if fst q = drawable_folder \<and> snd q \<in> set gs then None else map_of (files s) q) \<and>
    console s' = console s @ map Deleted gs"
  using assms
proof (induction gs arbitrary: s)
  case Nil
  then show ?case by simp
next
  case (Cons g gs)
  obtain v where v: "map_of (files s) (drawable_folder, g) = Some v" using Cons.prems by auto
  let ?s1 = "print_msg (Deleted g) (s\<lparr>files := AList.delete (drawable_folder, g) (files s)\<rparr>)"
  have m1: "map_of (files ?s1) = (map_of (files s))((drawable_folder, g) := None)"
    by (simp add: print_msg_files delete_conv')
  have "\<forall>g' \<in> set gs. map_of (files ?s1) (drawable_folder, g') \<noteq> None"
    using Cons.prems by (auto simp: m1)
  with Cons.IH[of ?s1] Cons.prems obtain s' where r: "remove_all gs ?s1 = Inr s'"
    and m: "map_of (files s') = (\<lambda>q. if fst q = drawable_folder \<and> snd q \<in> set gs then None else map_of (files ?s1) q)"
    and cs: "console s' = console ?s1 @ map Deleted gs"
    by auto
  have "remove_all (g # gs) s = Inr s'" using v r by (simp add: remove_file_def)
  moreover have "map_of (files s') = (\<lambda>q. if fst q = drawable_folder \<and> snd q \<in> set (g # gs) then None
      else map_of (files s) q)"
    unfolding m m1 by (auto simp: fun_eq_iff)
  moreover have "console s' = console s @ map Deleted (g # gs)" using cs by (simp add: print_msg_def)
  ultimately show ?case by blast
qed

lemma set_listdir: "set (listdir d fs) = {g. (d, g) \<in> fst ` set fs}"
proof (induction fs)
  case Nil
  then show ?case by (simp add: listdir_def)
next
  case (Cons e fs)
  obtain q f where e: "e = (q, f)" by (cases e)
  have "listdir d (e # fs) = (if fst q = d then [snd q] else []) @ listdir d fs"
    by (simp add: listdir_def e)
  with Cons.IH e show ?case by (cases q) auto
qed

lemma old_hurt_props:
  assumes "wf_fs fs"
  shows "distinct (old_hurt fs)"
    "g \<in> set (old_hurt fs) \<longleftrightarrow> startswith g ''goblin_hurt_'' \<and> map_of fs (drawable_folder, g) \<noteq> None"
proof -
  show "distinct (old_hurt fs)"
    using assms by (simp add: old_hurt_def wf_fs_def distinct_listdir)
  have "map_of fs (drawable_folder, g) \<noteq> None \<longleftrightarrow> (drawable_folder, g) \<in> fst ` set fs"
    by (simp add: map_of_eq_None_iff)
  then show "g \<in> set (old_hurt fs) \<longleftrightarrow> startswith g ''goblin_hurt_'' \<and> map_of fs (drawable_folder, g) \<noteq> None"
    by (auto simp: old_hurt_def set_listdir)
qed

section \<open>Lemmas: the frame loop\<close>

declare hurt_step.simps [simp del]

lemma atk2_ne_drawable: "atk2_folder \<noteq> drawable_folder"
  by (simp add: atk2_folder_def drawable_folder_def)

lemma frame_result_cong:
  "map_of fs (atk2_folder, f) = map_of fs' (atk2_folder, f) \<Longrightarrow> frame_result fs f = frame_result fs' f"
  by (simp add: frame_result_def open_image_def)

lemma frame_result_save: "frame_result (save_png (drawable_folder, n) c fs) f = frame_result fs f"
  by (rule frame_result_cong) (simp add: map_of_save_png atk2_ne_drawable)

lemma files_hurt_step:
  "files (hurt_step (i, f) s) =
     (case frame_result (files s) f of None \<Rightarrow> files s | Some c \<Rightarrow> save_png (drawable_folder, hurt_name i) c (files s))"
  by (auto simp: hurt_step.simps frame_result_def print_msg_files split: sum.splits option.splits)

lemma hurt_out_list_names:
  "(n, c) \<in> set (hurt_out_list fs ps) \<Longrightarrow> \<exists>i \<in> fst ` set ps. n = hurt_name i"
  by (force simp: hurt_out_list_def split: option.splits)

lemma hurt_out_list_Cons:
  "hurt_out_list fs ((i, f) # ps) =
     (case frame_result fs f of None \<Rightarrow> [] | Some c \<Rightarrow> [(hurt_name i, c)]) @ hurt_out_list fs ps"
  by (simp add: hurt_out_list_def)

lemma hurt_out_list_cong:
  "(\<And>f. frame_result fs f = frame_result fs' f) \<Longrightarrow> hurt_out_list fs ps = hurt_out_list fs' ps"
  by (simp add: hurt_out_list_def)

lemma zip_upt_Cons:
  "zip [k..<k + length (f # hs)] (f # hs) = (k, f) # zip [Suc k..<Suc k + length hs] hs"
  by (simp add: upt_conv_Cons del: upt_Suc)

lemma hurt_pass_gen:
  "map_of (files (fold hurt_step (zip [k..<k + length hs] hs) s)) q =
     (if fst q = drawable_folder
      then (case map_of (hurt_out_list (files s) (zip [k..<k + length hs] hs)) (snd q) of
              Some c \<Rightarrow> Some (PngFile c) | None \<Rightarrow> map_of (files s) q)
      else map_of (files s) q)"
proof (induction hs arbitrary: k s)
  case Nil
  then show ?case by (simp add: hurt_out_list_def)
next
  case (Cons f hs)
  define ps where "ps = zip [Suc k..<Suc k + length hs] hs"
  let ?s1 = "hurt_step (k, f) s"
  let ?L = "hurt_out_list (files s) ps"
  have z: "zip [k..<k + length (f # hs)] (f # hs) = (k, f) # ps"
    unfolding ps_def by (rule zip_upt_Cons)
  have IH: "map_of (files (fold hurt_step ps ?s1)) q =
     (if fst q = drawable_folder
      then (case map_of (hurt_out_list (files ?s1) ps) (snd q) of
              Some c \<Rightarrow> Some (PngFile c) | None \<Rightarrow> map_of (files ?s1) q)
      else map_of (files ?s1) q)"
    unfolding ps_def by (rule Cons.IH)
  have L1: "hurt_out_list (files ?s1) ps = ?L"
    by (rule hurt_out_list_cong) (auto simp: files_hurt_step frame_result_save split: option.splits)
  have "(hurt_name k, c) \<notin> set ?L" for c
  proof
    assume "(hurt_name k, c) \<in> set ?L"
    then obtain i where i: "i \<in> fst ` set ps" "hurt_name k = hurt_name i"
      using hurt_out_list_names by blast
    from i(1) have "Suc k \<le> i" unfolding ps_def by (auto dest!: set_zip_leftD simp del: upt_Suc)
    with i(2) show False by (simp add: hurt_name_inj)
  qed
  then have fresh: "map_of ?L (hurt_name k) = None"
    by (force simp: map_of_eq_None_iff)
  show ?case
  proof (cases "frame_result (files s) f")
    case None
    then have f1: "files ?s1 = files s" by (simp add: files_hurt_step)
    show ?thesis using IH L1 None unfolding z f1 by (simp add: hurt_out_list_Cons)
  next
    case (Some c)
    then have f1: "files ?s1 = save_png (drawable_folder, hurt_name k) c (files s)" by (simp add: files_hurt_step)
    show ?thesis using IH L1 fresh Some unfolding z f1
      by (cases q) (auto simp: hurt_out_list_Cons map_of_save_png split: option.splits)
  qed
qed

lemma hurt_pass_files:
  "map_of (files (hurt_pass hs s)) q =
     (if fst q = drawable_folder
      then (case hurt_outputs (files s) hs (snd q) of Some c \<Rightarrow> Some (PngFile c) | None \<Rightarrow> map_of (files s) q)
      else map_of (files s) q)"
  using hurt_pass_gen[of 1 hs s q] by (simp add: hurt_pass_def hurt_outputs_def enumerate1_def)

lemma hurt_outputs_prefix: "hurt_outputs fs hs n = Some c \<Longrightarrow> startswith n ''goblin_hurt_''"
  by (auto simp: hurt_outputs_def hurt_name_prefix dest!: map_of_SomeD hurt_out_list_names)

lemma hurt_outputs_cong:
  "(\<And>f. map_of fs (atk2_folder, f) = map_of fs' (atk2_folder, f)) \<Longrightarrow> hurt_outputs fs hs = hurt_outputs fs' hs"
  unfolding hurt_outputs_def by (metis hurt_out_list_cong frame_result_cong)

lemma frame_result_None_iff:
  assumes "open_image fs (atk2_folder, f) = Inr img"
  shows "frame_result fs f = None \<longleftrightarrow> getbbox (to_rgba img) = None"
proof (cases "tight_crop img")
  case None
  then show ?thesis using assms by (auto simp: frame_result_def hurt_frame_def tight_crop_def Let_def
    split: option.splits)
next
  case (Some res)
  then obtain l t r b c where bb: "getbbox (to_rgba img) = Some (l, t, r, b)"
    and c: "crop (to_rgba img) (l, t, r, b) = Inr c" and res: "res = Inr c"
    by (rule tight_crop_Some)
  have "mode c = RGBA" using crop_fields(1)[OF c] by (simp add: to_rgba_fields)
  then obtain out where "place_on_canvas (hurt_canvas, hurt_canvas)
      (bottom_offset (hurt_canvas, hurt_canvas) 0 c) c = Inr out"
    using place_on_canvas_rgba by blast
  then show ?thesis using assms Some res bb by (simp add: frame_result_def hurt_frame_def)
qed

lemma hurt_outputs_Some:
  "hurt_outputs fs hs n = Some c \<Longrightarrow> \<exists>i. 1 \<le> i \<and> i \<le> length hs \<and> n = hurt_name i"
  unfolding hurt_outputs_def enumerate1_def
  by (force dest!: map_of_SomeD hurt_out_list_names set_zip_leftD simp del: upt_Suc)

lemma remove_old_hurt:
  assumes "wf_fs (files s)"
  shows "\<exists>s'. remove_all (old_hurt (files s)) s = Inr s' \<and>
    map_of (files s') = (\<lambda>q. if fst q = drawable_folder \<and> startswith (snd q) ''goblin_hurt_'' then None
                           else map_of (files s) q) \<and>
    console s' = console s @ map Deleted (old_hurt (files s))"
proof -
  from remove_all_Inr[OF old_hurt_props(1)[OF assms]] old_hurt_props(2)[OF assms]
  obtain s' where r: "remove_all (old_hurt (files s)) s = Inr s'"
    and m: "map_of (files s') = (\<lambda>q. if fst q = drawable_folder \<and> snd q \<in> set (old_hurt (files s)) then None
                                else map_of (files s) q)"
    and c: "console s' = console s @ map Deleted (old_hurt (files s))"
    by blast
  have "map_of (files s') q = (if fst q = drawable_folder \<and> startswith (snd q) ''goblin_hurt_'' then None
                           else map_of (files s) q)" for q
    using old_hurt_props(2)[OF assms, of "snd q"] unfolding m by (cases q) auto
  with r c show ?thesis by blast
qed

lemma hurt_step_one_line:
  "\<exists>m. console (hurt_step p s) = console s @ [m] \<and> msg_file m = Some (snd p)"
  by (cases p) (auto simp: hurt_step.simps print_msg_def msg_file_def split: sum.splits option.splits)

lemma hurt_pass_console:
  "\<exists>ms. console (hurt_pass hs s) = console s @ ms \<and> map msg_file ms = map Some hs"
proof -
  obtain ms where c: "console (fold hurt_step (enumerate1 hs) s) = console s @ ms"
    and m: "map msg_file ms = map (Some \<circ> snd) (enumerate1 hs)"
    using console_fold_one_line[where step = hurt_step and key = snd, OF hurt_step_one_line] by blast
  have "map snd (enumerate1 hs) = hs"
    unfolding enumerate1_def by (simp del: upt_Suc)
  then have "map (Some \<circ> snd) (enumerate1 hs) = map Some hs"
    by (metis map_map)
  with c m show ?thesis unfolding hurt_pass_def by metis
qed

lemma remove_all_console: "remove_all gs s = Inl (e, s') \<Longrightarrow> \<exists>m. console s' = console s @ m"
proof (induction gs arbitrary: s)
  case (Cons g gs)
  show ?case
  proof (cases "remove_file (drawable_folder, g) (files s)")
    case (Inl e')
    with Cons.prems show ?thesis by simp
  next
    case (Inr fs')
    with Cons.prems have "remove_all gs (print_msg (Deleted g) (s\<lparr>files := fs'\<rparr>)) = Inl (e, s')" by simp
    from Cons.IH[OF this] obtain m where "console s' = console (print_msg (Deleted g) (s\<lparr>files := fs'\<rparr>)) @ m" ..
    then have "console s' = console s @ (Deleted g # m)" by (simp add: print_msg_def)
    then show ?thesis ..
  qed
qed simp

lemma enumerate1_snoc: "enumerate1 (hs @ [h]) = enumerate1 hs @ [(Suc (length hs), h)]"
proof -
  have u: "[1..<Suc (length (hs @ [h]))] = [1..<Suc (length hs)] @ [Suc (length hs)]" by simp
  show ?thesis unfolding enumerate1_def u by (subst zip_append) (auto simp: Suc_le_eq)
qed

lemma hurt_outputs_name:
  assumes "1 \<le> i" "i \<le> length hs"
  shows "hurt_outputs fs hs (hurt_name i) = frame_result fs (hs ! (i - 1))"
  using assms
proof (induction hs arbitrary: i rule: rev_induct)
  case Nil
  then show ?case by simp
next
  case (snoc h hs)
  have split: "hurt_out_list fs (enumerate1 (hs @ [h])) =
      hurt_out_list fs (enumerate1 hs) @
      (case frame_result fs h of None \<Rightarrow> [] | Some c \<Rightarrow> [(hurt_name (Suc (length hs)), c)])"
    by (simp add: hurt_out_list_def enumerate1_snoc)
  show ?case
  proof (cases "i = Suc (length hs)")
    case True
    have "hurt_name (Suc (length hs)) \<notin> fst ` set (hurt_out_list fs (enumerate1 hs))"
      by (force simp: enumerate1_def hurt_name_inj dest!: hurt_out_list_names set_zip_leftD)
    then have n: "map_of (hurt_out_list fs (enumerate1 hs)) (hurt_name (Suc (length hs))) = None"
      by (simp add: map_of_eq_None_iff)
    show ?thesis using True
      by (simp add: hurt_outputs_def split map_of_append nth_append map_add_def n split: option.splits)
  next
    case False
    with snoc.prems have i: "i \<le> length hs" by simp
    have "hurt_name i \<noteq> hurt_name (Suc (length hs))" using i by (simp add: hurt_name_inj)
    with snoc.IH[OF snoc.prems(1) i] i snoc.prems(1) show ?thesis
      by (auto simp: hurt_outputs_def split map_of_append nth_append map_add_def split: option.splits)
  qed
qed

section \<open>Lemmas: the outputs are goblin sprites\<close>

lemma hurt_name_goblin: "is_goblin_file (hurt_name i)"
  by (simp add: is_goblin_file_def hurt_name_def startswith_def endswith_def)

lemma frame_result_size: "frame_result fs f = Some c \<Longrightarrow> width c = hurt_canvas \<and> height c = hurt_canvas"
  by (auto simp: frame_result_def hurt_frame_def dest: place_on_canvas_fields(2,3)
      split: sum.splits option.splits)

lemma hurt_outputs_size:
  "hurt_outputs fs hs n = Some c \<Longrightarrow> is_goblin_file n \<and> width c = hurt_canvas \<and> height c = hurt_canvas"
  using hurt_outputs_Some[of fs hs n c] hurt_outputs_name[of _ hs fs] frame_result_size hurt_name_goblin
  by metis

lemma extract_goblin_hurt_full_files:
  assumes wf: "wf_fs (files s)" and sel: "select_hurt (atk2_pngs (files s)) = Inr hs"
  shows "\<exists>s'. extract_goblin_hurt_full s = Inr s' \<and>
    (\<forall>q. map_of (files s') q =
       (if fst q = drawable_folder \<and> startswith (snd q) ''goblin_hurt_''
        then map_option PngFile (hurt_outputs (files s) hs (snd q)) else map_of (files s) q))"
proof -
  let ?s2 = "print_msg (CanvasSize hurt_canvas hurt_canvas) (print_msg (Extracting (length hs)) s)"
  have wf2: "wf_fs (files ?s2)" using wf by (simp add: print_msg_files)
  from remove_old_hurt[OF wf2] obtain s3 where r3: "remove_all (old_hurt (files ?s2)) ?s2 = Inr s3"
    and m3': "map_of (files s3) = (\<lambda>q. if fst q = drawable_folder \<and> startswith (snd q) ''goblin_hurt_''
                              then None else map_of (files ?s2) q)"
    by blast
  have m3: "map_of (files s3) = (\<lambda>q. if fst q = drawable_folder \<and> startswith (snd q) ''goblin_hurt_''
                              then None else map_of (files s) q)"
    using m3' unfolding print_msg_files .
  let ?s' = "print_msg (DoneCount (length hs)) (hurt_pass hs (print_msg Blank s3))"
  have run: "extract_goblin_hurt_full s = Inr ?s'"
    using sel r3 by (simp add: extract_goblin_hurt_full_def Let_def)
  have same: "hurt_outputs (files s3) hs = hurt_outputs (files s) hs"
    by (rule hurt_outputs_cong) (simp add: m3 atk2_ne_drawable)
  have "map_of (files ?s') q =
       (if fst q = drawable_folder \<and> startswith (snd q) ''goblin_hurt_''
        then map_option PngFile (hurt_outputs (files s) hs (snd q)) else map_of (files s) q)" for q
    using hurt_pass_files[of hs "print_msg Blank s3" q] hurt_outputs_prefix[of "files s" hs "snd q"]
    by (auto simp: print_msg_files same m3 split: option.splits)
  with run show ?thesis by blast
qed

section \<open>Lemmas: the sample folder\<close>

lemma hurt_sys_third_frame:
  "hurt_outputs (files hurt_sys) [''0100.png'', ''0101.png'', ''0102.png''] ''goblin_hurt_0003.png'' \<noteq> None"
proof -
  have o3: "open_image (files hurt_sys) (atk2_folder, ''0102.png'') = Inr sprite_column" by code_simp
  have b3: "getbbox (to_rgba sprite_column) \<noteq> None"
  proof
    assume "getbbox (to_rgba sprite_column) = None"
    then have "\<not> is_content RGBA (pixel_at (to_rgba sprite_column) 1 0)"
      by (simp add: getbbox_None_iff to_rgba_fields sprite_column_def sample_image_def)
    then show False
      by (simp add: to_rgba_def sprite_column_def sample_image_def pixel_at_def is_content_def solid_def)
  qed
  have n: "''goblin_hurt_0003.png'' = hurt_name 3" by code_simp
  show ?thesis
    using hurt_outputs_name[of 3 "[''0100.png'', ''0101.png'', ''0102.png'']" "files hurt_sys"]
      frame_result_None_iff[OF o3] b3 n by simp
qed

section \<open>Properties of the hurt scripts\<close>

text \<open>
  C20: \<open>extract_goblin_hurt_full.py\<close> calls \<open>int(f[0:4])\<close> outside any \<open>try\<close>:
  it raises, before deleting or writing anything and before printing, exactly when
  some \<open>.png\<close> name of the Atk2 folder starts with \<open>01\<close> and its first four
  characters are no integer literal (e.g. \<open>01.png\<close>).
\<close>

theorem hurt_full_abort:
  "(\<exists>e. extract_goblin_hurt_full s = Inl (e, s)) \<longleftrightarrow>
   (\<exists>f \<in> set (atk2_pngs (files s)). startswith f ''01'' \<and> (\<exists>e. py_int (take 4 f) = Inl e))"
proof -
  have "(\<exists>e. extract_goblin_hurt_full s = Inl (e, s)) \<longleftrightarrow> (\<exists>e. select_hurt (atk2_pngs (files s)) = Inl e)"
  proof (cases "select_hurt (atk2_pngs (files s))")
    case (Inl e)
    then show ?thesis by (simp add: extract_goblin_hurt_full_def)
  next
    case (Inr hs)
    let ?s2 = "print_msg (CanvasSize hurt_canvas hurt_canvas) (print_msg (Extracting (length hs)) s)"
    have "extract_goblin_hurt_full s \<noteq> Inl (e, s)" for e
    proof
      assume "extract_goblin_hurt_full s = Inl (e, s)"
      then have "remove_all (old_hurt (files ?s2)) ?s2 = Inl (e, s)"
        using Inr by (auto simp: extract_goblin_hurt_full_def Let_def bind_run_def split: sum.splits)
      from remove_all_console[OF this] show False by (auto simp: print_msg_def)
    qed
    with Inr show ?thesis by simp
  qed
  then show ?thesis by (simp only: select_hurt_Inl_iff)
qed

theorem hurt_full_abort_witness:
  "\<exists>e. extract_goblin_hurt_full bad_name_sys = Inl (e, bad_name_sys)"
proof -
  have m: "''01.png'' \<in> set (atk2_pngs (files bad_name_sys))" by code_simp
  have p: "py_int (take 4 ''01.png'') = Inl (InvalidIntLiteral ''01.p'')" by code_simp
  have "startswith ''01.png'' ''01''" by (simp add: startswith_def)
  with m p hurt_full_abort[of bad_name_sys] show ?thesis by blast
qed

text \<open>
  C21: \<open>extract_goblin_hurt_full.py\<close> implements its specification: when the
  selection succeeds, the \<open>goblin_hurt_*\<close> files of the drawable folder afterwards
  are exactly the outputs \<open>hurt_outputs\<close> of the selected frames (stale frames of
  earlier runs are gone, and a frame that fails or has no content leaves its number
  unused), and every other file is unchanged.
\<close>

theorem hurt_full_outputs:
  assumes wf: "wf_fs (files s)" and sel: "select_hurt (atk2_pngs (files s)) = Inr hs"
  shows "\<exists>s'. extract_goblin_hurt_full s = Inr s' \<and>
    (\<forall>q. map_of (files s') q =
       (if fst q = drawable_folder \<and> startswith (snd q) ''goblin_hurt_''
        then map_option PngFile (hurt_outputs (files s) hs (snd q)) else map_of (files s) q))"
  using extract_goblin_hurt_full_files[OF wf sel] .

theorem hurt_full_outputs_witness:
  "\<exists>s'. extract_goblin_hurt_full hurt_sys = Inr s' \<and>
     map_of (files s') (drawable_folder, ''goblin_hurt_0002.png'') = None \<and>
     map_of (files s') (drawable_folder, ''goblin_hurt_0009.png'') = None \<and>
     map_of (files s') (drawable_folder, ''goblin_hurt_0003.png'') \<noteq> None"
proof -
  have wf: "wf_fs (files hurt_sys)" by code_simp
  have sel: "select_hurt (atk2_pngs (files hurt_sys)) = Inr [''0100.png'', ''0101.png'', ''0102.png'']"
    by code_simp
  have o2: "open_image (files hurt_sys) (atk2_folder, ''0101.png'') = Inr blank_sprite" by code_simp
  have b2: "getbbox (to_rgba blank_sprite) = None"
    by (auto simp: getbbox_None_iff to_rgba_fields blank_sprite_def sample_image_def pixel_at_def
        to_rgba_def is_content_def transparent_def less_Suc_eq)
  have n: "''goblin_hurt_0002.png'' = hurt_name 2" "''goblin_hurt_0003.png'' = hurt_name 3"
    "''goblin_hurt_0009.png'' = hurt_name 9"
    by code_simp+
  let ?hs = "[''0100.png'', ''0101.png'', ''0102.png'']"
  have h2: "hurt_outputs (files hurt_sys) ?hs ''goblin_hurt_0002.png'' = None"
    using hurt_outputs_name[of 2 ?hs "files hurt_sys"] frame_result_None_iff[OF o2] b2 n(1) by simp
  have h3: "hurt_outputs (files hurt_sys) ?hs ''goblin_hurt_0003.png'' \<noteq> None"
    by (rule hurt_sys_third_frame)
  have h9: "hurt_outputs (files hurt_sys) ?hs ''goblin_hurt_0009.png'' = None"
  proof (rule ccontr)
    assume "hurt_outputs (files hurt_sys) ?hs ''goblin_hurt_0009.png'' \<noteq> None"
    then obtain c where "hurt_outputs (files hurt_sys) ?hs (hurt_name 9) = Some c" using n(3) by auto
    from hurt_outputs_Some[OF this] show False by (auto simp: hurt_name_inj)
  qed
  from hurt_full_outputs[OF wf sel] obtain s' where r: "extract_goblin_hurt_full hurt_sys = Inr s'"
    and m: "\<forall>q. map_of (files s') q =
       (if fst q = drawable_folder \<and> startswith (snd q) ''goblin_hurt_''
        then map_option PngFile (hurt_outputs (files hurt_sys) ?hs (snd q)) else map_of (files hurt_sys) q)"
    by blast
  have p: "startswith ''goblin_hurt_0002.png'' ''goblin_hurt_''" "startswith ''goblin_hurt_0003.png'' ''goblin_hurt_''"
    "startswith ''goblin_hurt_0009.png'' ''goblin_hurt_''"
    by (simp_all add: startswith_def)
  show ?thesis using r m p h2 h3 h9 by simp
qed

text \<open>
  C22: \<open>extract_goblin_hurt.py\<close> writes \<open>goblin_hurt_{i:04d}.png\<close> for the frames
  among the first five sorted \<open>.png\<close> names that yield an image, and nothing else:
  it deletes nothing, so \<open>goblin_hurt_*\<close> files of an earlier run that it does not
  overwrite (such as frames 6 and later) stay in the drawable folder.
\<close>

theorem extract_goblin_hurt_files:
  "map_of (files (extract_goblin_hurt s)) q =
     (if fst q = drawable_folder
      then (case hurt_outputs (files s) (take 5 (atk2_pngs (files s))) (snd q) of
              Some c \<Rightarrow> Some (PngFile c) | None \<Rightarrow> map_of (files s) q)
      else map_of (files s) q)"
  using hurt_pass_files[of "take 5 (atk2_pngs (files s))"
      "print_msg (CanvasSize hurt_canvas hurt_canvas) (print_msg (Extracting (length (take 5 (atk2_pngs (files s))))) s)" q]
  unfolding extract_goblin_hurt_def Let_def print_msg_files .

text \<open>
  C27: the deletion loop of \<open>extract_goblin_hurt_full.py\<close> (lines 21--24, outside any
  \<open>try\<close>) always runs to completion on a well-formed folder: \<open>os.remove\<close> never
  raises, since every listed name exists and is listed once; it prints one
  \<open>Deleted old ...\<close> line for each of the existing \<open>goblin_hurt_\<close> files, in listing
  order, and afterwards none of them is left.
\<close>

theorem hurt_deletion_completes:
  assumes wf: "wf_fs (files s)"
  shows "\<exists>s'. remove_all (old_hurt (files s)) s = Inr s' \<and>
    console s' = console s @ map Deleted (old_hurt (files s)) \<and>
    length (old_hurt (files s)) =
      card {f. startswith f ''goblin_hurt_'' \<and> map_of (files s) (drawable_folder, f) \<noteq> None} \<and>
    map_of (files s') = (\<lambda>q. if fst q = drawable_folder \<and> startswith (snd q) ''goblin_hurt_'' then None
                            else map_of (files s) q)"
proof -
  have set_old: "set (old_hurt (files s)) =
      {f. startswith f ''goblin_hurt_'' \<and> map_of (files s) (drawable_folder, f) \<noteq> None}"
    using old_hurt_props(2)[OF wf] by blast
  have len: "length (old_hurt (files s)) =
      card {f. startswith f ''goblin_hurt_'' \<and> map_of (files s) (drawable_folder, f) \<noteq> None}"
    using distinct_card[OF old_hurt_props(1)[OF wf]] set_old by simp
  with remove_old_hurt[OF wf] show ?thesis by blast
qed

theorem hurt_deletion_completes_witness:
  "\<exists>s'. remove_all (old_hurt (files hurt_sys)) hurt_sys = Inr s' \<and>
     console s' = [Deleted ''goblin_hurt_0009.png'']"
proof -
  have wf: "wf_fs (files hurt_sys)" by code_simp
  have o: "old_hurt (files hurt_sys) = [''goblin_hurt_0009.png'']" by code_simp
  have c: "console hurt_sys = []" by (simp add: hurt_sys_def)
  from hurt_deletion_completes[OF wf] obtain s' where r: "remove_all (old_hurt (files hurt_sys)) hurt_sys = Inr s'"
    and cs: "console s' = console hurt_sys @ map Deleted (old_hurt (files hurt_sys))"
    by blast
  have "console s' = [Deleted ''goblin_hurt_0009.png'']" unfolding cs o c by simp
  with r show ?thesis by blast
qed

text \<open>
  C28: every run of \<open>extract_goblin_hurt_full.py\<close> on a well-formed folder whose
  frame selection succeeds reaches its last line: it prints the frame count and
  the canvas size, one \<open>Deleted old\<close> line per stale frame, a blank line, then
  exactly one line (created, skipped or error) per selected frame, in order, and
  the closing \<open>Done! Created N\<close> line, where N is the number of selected frames, not
  the number created.
\<close>

theorem hurt_full_console:
  assumes wf: "wf_fs (files s)" and sel: "select_hurt (atk2_pngs (files s)) = Inr hs"
  shows "\<exists>s' ms. extract_goblin_hurt_full s = Inr s' \<and>
    console s' = console s @ [Extracting (length hs), CanvasSize hurt_canvas hurt_canvas] @
      map Deleted (old_hurt (files s)) @ [Blank] @ ms @ [DoneCount (length hs)] \<and>
    map msg_file ms = map Some hs"
proof -
  let ?s2 = "print_msg (CanvasSize hurt_canvas hurt_canvas) (print_msg (Extracting (length hs)) s)"
  have wf2: "wf_fs (files ?s2)" using wf by (simp add: print_msg_files)
  from remove_old_hurt[OF wf2] obtain s3 where r3: "remove_all (old_hurt (files ?s2)) ?s2 = Inr s3"
    and c3: "console s3 = console ?s2 @ map Deleted (old_hurt (files ?s2))"
    by blast
  obtain ms where c: "console (hurt_pass hs (print_msg Blank s3)) = console (print_msg Blank s3) @ ms"
    and m: "map msg_file ms = map Some hs"
    using hurt_pass_console by blast
  have run: "extract_goblin_hurt_full s =
      Inr (print_msg (DoneCount (length hs)) (hurt_pass hs (print_msg Blank s3)))"
    using sel r3 by (simp add: extract_goblin_hurt_full_def Let_def)
  have "console (print_msg (DoneCount (length hs)) (hurt_pass hs (print_msg Blank s3))) =
      console s @ [Extracting (length hs), CanvasSize hurt_canvas hurt_canvas] @
      map Deleted (old_hurt (files s)) @ [Blank] @ ms @ [DoneCount (length hs)]"
    using c c3 by (simp add: print_msg_def)
  with run m show ?thesis by blast
qed

theorem hurt_full_console_witness:
  "\<exists>s' ms. extract_goblin_hurt_full hurt_sys = Inr s' \<and>
    console s' = [Extracting 3, CanvasSize 201 201, Deleted ''goblin_hurt_0009.png'', Blank] @ ms @ [DoneCount 3] \<and>
    map msg_file ms = [Some ''0100.png'', Some ''0101.png'', Some ''0102.png'']"
proof -
  have wf: "wf_fs (files hurt_sys)" by code_simp
  have sel: "select_hurt (atk2_pngs (files hurt_sys)) = Inr [''0100.png'', ''0101.png'', ''0102.png'']"
    by code_simp
  have o: "old_hurt (files hurt_sys) = [''goblin_hurt_0009.png'']" by code_simp
  have c: "console hurt_sys = []" by (simp add: hurt_sys_def)
  from hurt_full_console[OF wf sel] obtain s' ms where r: "extract_goblin_hurt_full hurt_sys = Inr s'"
    and cs: "console s' = console hurt_sys @
      [Extracting (length [''0100.png'', ''0101.png'', ''0102.png'']), CanvasSize hurt_canvas hurt_canvas] @
      map Deleted (old_hurt (files hurt_sys)) @ [Blank] @ ms @
      [DoneCount (length [''0100.png'', ''0101.png'', ''0102.png''])]"
    and m: "map msg_file ms = map Some [''0100.png'', ''0101.png'', ''0102.png'']"
    by blast
  have "console s' = [Extracting 3, CanvasSize 201 201, Deleted ''goblin_hurt_0009.png'', Blank] @ ms @ [DoneCount 3]"
    unfolding cs o c by (simp add: hurt_canvas_def)
  with r m show ?thesis by (intro exI[of _ s'] exI[of _ ms]) simp
qed

text \<open>
  C32: \<open>extract_goblin_hurt.py\<close> always runs to its last line: it prints the
  frame count and the canvas size, exactly one line (created, skipped or error) for
  each of the first five sorted frames, in order, and \<open>Done! Created N\<close> with N
  the number of frames taken, however many were created.
\<close>

theorem extract_goblin_hurt_console:
  "\<exists>ms. console (extract_goblin_hurt s) =
      console s @ [Extracting (length (take 5 (atk2_pngs (files s)))), CanvasSize hurt_canvas hurt_canvas] @
        ms @ [DoneCount (length (take 5 (atk2_pngs (files s))))] \<and>
      map msg_file ms = map Some (take 5 (atk2_pngs (files s)))"
proof -
  let ?atk = "take 5 (atk2_pngs (files s))"
  let ?s2 = "print_msg (CanvasSize hurt_canvas hurt_canvas) (print_msg (Extracting (length ?atk)) s)"
  obtain ms where c: "console (hurt_pass ?atk ?s2) = console ?s2 @ ms" and m: "map msg_file ms = map Some ?atk"
    using hurt_pass_console by blast
  have "console (extract_goblin_hurt s) =
      console s @ [Extracting (length ?atk), CanvasSize hurt_canvas hurt_canvas] @ ms @ [DoneCount (length ?atk)]"
    using c by (simp add: extract_goblin_hurt_def Let_def print_msg_def)
  with m show ?thesis by blast
qed

end
