(* ===== verification/Spec2Isabelle.thy ===== *)
theory Spec2Isabelle
  imports Frames Hurt
begin

text \<open>
  \<^bold>\<open>A verification model of the QuizBattle sprite tools.\<close>

  The repository's \<open>src/\<close> holds nine one-shot Python scripts that prepare the
  goblin and knight sprites of the game with the Pillow library. They share no
  runtime; they interact only through the files they read and write in the
  drawable folder of the Android app (\<open>D:/QuizBattle/app/src/main/res/drawable\<close>,
  written with backslashes in the scripts). Each script lists
  its input files, opens each image, computes a bounding box, an offset or a
  fixed frame, crops or pastes, and saves; a per-file \<open>try\<close> prints an error
  line and goes on.

  \<^bold>\<open>Theories.\<close>
  \<^item> \<open>Prelude\<close>: the byte type, the exception datatype \<open>error\<close> the scripts can
    meet, rule collections, and generic lemmas: folds computing minima and maxima
    (the scripts' bounding-box loops), the exact rounding of Pillow's \<open>DIV255\<close>,
    Python floor division.
  \<^item> \<open>Pillow\<close>: the library the scripts call (not code of this repository, so
    modelled from its documented behaviour): RGBA pixels as four \<open>8 word\<close>
    bytes, images as a mode, a size and pixel rows, \<open>Image.new\<close>,
    \<open>convert('RGBA')\<close>, \<open>crop\<close> (zero fill outside the source, \<open>ValueError\<close>
    on a reversed box), \<open>getbbox\<close> (the box of the non-zero-alpha pixels) and
    \<open>paste(im, box, mask)\<close> with the \<open>BLEND\<close>/\<open>DIV255\<close> macros of
    \<open>Paste.c\<close> on 32-bit words, clipping, mode conversion and the
    "bad transparency mask" error. Lemmas: well-formedness (\<open>wf_image\<close>: the
    rows match the size) kept by every operation, the pixel equations of crop and
    paste, the contract of \<open>getbbox\<close>, and that \<open>BLEND\<close> never wraps and rounds
    to nearest.
  \<^item> \<open>Os\<close>: the file system as an association list from (folder, name) paths to
    files (a decoded image or an unreadable file), in \<open>os.listdir\<close> order; the
    console as the list of printed lines (datatype \<open>msg\<close>); the state record
    \<open>sys\<close>; \<open>listdir\<close>, \<open>open_image\<close>, \<open>save_png\<close>, \<open>remove_file\<close>,
    \<open>startswith\<close>, \<open>endswith\<close>. \<open>msg_file\<close> reads the file a per-file console
    line is about, and \<open>console_fold_one_line\<close> lifts "each step prints one line
    about its item" to a whole loop: the lemma every script's console result uses;
    \<open>console_grows\<close> counts the lines a straight-line script adds, raising or
    returning, and composes along \<open>bind_run\<close>.
  \<^item> \<open>CropGoblin\<close>: \<open>src/crop_goblin_sprites.py\<close> (\<open>content_bounds\<close> is its pixel
    loop, \<open>padded_box\<close> its 2-pixel padding, \<open>pad_crop\<close> the guarded crop,
    \<open>crop_goblin_sprites\<close> the script) and \<open>src/crop_goblin_tight.py\<close>
    (\<open>tight_crop\<close>, \<open>crop_goblin_tight\<close>); \<open>crop_in_place\<close> is the per-file
    try-block both share, \<open>goblin_files\<close> the file filter of line 8.
  \<^item> \<open>Canvas\<close>: \<open>src/align_goblin_bottom.py\<close>, \<open>src/resize_goblin_uniform.py\<close>
    and \<open>src/uniform_goblin_bottom.py\<close>. \<open>max_dims\<close> is their shared first pass
    (lines 12--20, outside any \<open>try\<close>), \<open>bottom_offset\<close> the offsets
    \<open>((cw - w) // 2, ch - h - lift)\<close> on Python integers, \<open>place_on_canvas\<close> the
    transparent \<open>Image.new\<close> and \<open>paste(img, offset, img)\<close>, \<open>canvas_step\<close> the
    body of the second loop, and \<open>align_goblin_bottom\<close>, \<open>resize_goblin_uniform\<close>,
    \<open>uniform_goblin_bottom\<close> the scripts, of type \<open>sys \<Rightarrow> error \<times> sys + sys\<close>
    (\<open>Inl\<close> is an uncaught exception with the state reached).
  \<^item> \<open>Frames\<close>: \<open>src/crop_sprite.py\<close> and \<open>src/prepare_knight_sprites.py\<close>.
    \<open>fixed_box\<close> is the box \<open>(0, 0, 100, 100)\<close>, \<open>frame_box F\<close> the first-frame
    box \<open>(0, 0, width // F, height)\<close>, \<open>extract_frame\<close> one open/crop/save/print
    block, and \<open>crop_sprite\<close>, \<open>prepare_knight_sprites\<close> the scripts, blocks
    chained by \<open>bind_run\<close> (in \<open>Os\<close>) because neither script has a \<open>try\<close>.
  \<^item> \<open>Hurt\<close>: \<open>src/extract_goblin_hurt.py\<close> and \<open>src/extract_goblin_hurt_full.py\<close>.
    Python's \<open>int()\<close> on a string (\<open>py_int\<close>: whitespace, sign, digits with single
    underscores, \<open>ValueError\<close> otherwise) and \<open>str\<close>/\<open>{:04d}\<close> (\<open>nat_digits\<close>,
    \<open>fmt04\<close>) are modelled on ASCII strings; \<open>atk2_pngs\<close> is the sorted listing
    (\<open>sorted\<close> on strings is \<open>sort\<close> under \<open>List_Lexorder\<close>), \<open>select_hurt\<close> the
    filter of line 10, \<open>remove_all\<close> the deletion loop, \<open>hurt_frame\<close> the tight crop
    and 201 x 201 paste, \<open>hurt_step\<close>/\<open>hurt_pass\<close> the \<open>enumerate\<close> loop, and
    \<open>extract_goblin_hurt\<close>, \<open>extract_goblin_hurt_full\<close> the scripts.
    \<open>hurt_outputs\<close> is the specification of the loop: the map from output names
    to images.

  \<^bold>\<open>What is proved.\<close> The hand-written loop of \<open>crop_goblin_sprites.py\<close>
  computes \<open>getbbox\<close> (an equivalence); its guard \<open>max_x > min_x and
  max_y > min_y\<close> skips exactly the sprites with no content or with content one
  pixel wide or tall (a bug: such sprites are reported as empty); its padded crop
  is the clamped window and loses no content. The tight crop never raises, skips
  exactly the empty images, keeps every content pixel, touches content on each
  edge, and is idempotent. For the canvas scripts: a sprite that fits is placed
  bottom-centred, exactly; every channel, alpha included, is multiplied by the
  sprite's alpha (self-masked paste), so half-transparent pixels lose half their
  opacity; the first pass returns the batch maxima, and aborts all three scripts,
  with no file written, on an unreadable goblin file; \<open>uniform_goblin_bottom.py\<close>
  is stable under re-running while \<open>resize_goblin_uniform.py\<close> grows the canvas
  by 20 pixels per run; \<open>align_goblin_bottom.py\<close> clips the top of a sprite taller
  than its fixed 227-pixel canvas; and re-running \<open>uniform_goblin_bottom.py\<close>
  keeps the sizes but squares every alpha again, so half-transparent pixels fade
  on every run. For the frame scripts: the first frame is
  columns \<open>[0, W // F)\<close> of the sheet, the fixed crop is always 100 x 100 and
  zero-filled beyond a small sheet, the Knight script writes exactly its four
  avatars, an Orc sheet that fails to open leaves \<open>player_avatar.png\<close> already
  overwritten, and the two scripts race for \<open>player_avatar.png\<close>: the later one wins.
  For the hurt scripts: distinct frame numbers give distinct output names (the
  lemma \<open>hurt_name_inj\<close>, through \<open>int()\<close> of \<open>{:04d}\<close>); on well-formed frame
  names the selection is frames 100--110;
  the full script aborts untouched exactly on a name whose prefix \<open>int()\<close>
  rejects; otherwise it refines \<open>hurt_outputs\<close> (stale frames deleted, skipped
  frames leave numbering gaps), while the five-frame script leaves stale frames.
  On the files: \<open>crop_goblin_tight.py\<close> replaces each goblin sprite with content by
  its tight crop and leaves empty and unreadable sprites as they were, and running it twice equals running it once; so does
  \<open>crop_goblin_sprites.py\<close>, whose padded crop is a fixpoint of itself (the
  generalised window lemmas \<open>window_crop_content\<close> and \<open>getbbox_window_crop\<close> carry
  both proofs).
  Running to completion and the console: the deletion loop of the full hurt script
  never raises on a well-formed folder and prints one line per stale frame; both
  crop scripts, the canvas scripts (unless their uncaught first pass raises, after
  which they print nothing more) and both hurt scripts print exactly one line per
  file, in order, between their header lines and the closing line, whose count in
  the hurt scripts is the number of selected, not created, frames; the frame
  scripts, which have no \<open>try\<close>, stop only between two whole blocks of output.
  Across the scripts (this theory): the hurt frames are \<open>goblin_*.png\<close>
  files, so a canvas script run after the hurt extraction takes them into its batch
  and its maxima are at least 201 x 201.

  \<^bold>\<open>Plan for the remaining parts.\<close> Every script of \<open>src/\<close> is modelled,
  with its console output and its error paths; what is left out is listed below.

  \<^bold>\<open>Not modelled.\<close> PNG encoding and decoding (a saved image is read back as
  saved), image modes other than RGBA and RGB, \<open>print\<close> formatting (a console
  line is a \<open>msg\<close> value), case-insensitivity of Windows paths, failures of
  \<open>save\<close>, \<open>os.listdir\<close> of a missing folder (an empty listing here), non-ASCII
  digits and whitespace in \<open>int()\<close>, and the unused goblin file list of line 14 of
  \<open>extract_goblin_hurt.py\<close>. No loop of the scripts can run forever: every loop is over a finite
  list, so every definition is a total, executable function and no fuel is needed.
\<close>

section \<open>Properties across the scripts\<close>

text \<open>
  C31: the scripts interact through the shared \<open>goblin_\<close> prefix. Every frame
  \<open>extract_goblin_hurt_full.py\<close> writes is a \<open>goblin_*.png\<close> file of the drawable
  folder, so a canvas script run afterwards takes it into its batch; its first pass
  then sees a 201 x 201 image, and the batch maxima it prints and (in
  \<open>uniform_goblin_bottom.py\<close> and \<open>resize_goblin_uniform.py\<close>) sizes every
  goblin sprite's canvas by are at least 201.
\<close>

theorem hurt_frames_join_canvas_batch:
  assumes wf: "wf_fs (files s)" and sel: "select_hurt (atk2_pngs (files s)) = Inr hs"
    and out: "hurt_outputs (files s) hs n \<noteq> None"
  shows "\<exists>s'. extract_goblin_hurt_full s = Inr s' \<and> n \<in> set (goblin_files (files s')) \<and>
    (case max_dims (files s') (goblin_files (files s')) (0, 0) of
       Inl _ \<Rightarrow> True
     | Inr (mw, mh) \<Rightarrow> hurt_canvas \<le> mw \<and> hurt_canvas \<le> mh)"
proof -
  obtain c where c: "hurt_outputs (files s) hs n = Some c" using out by auto
  from extract_goblin_hurt_full_files[OF wf sel] obtain s' where r: "extract_goblin_hurt_full s = Inr s'"
    and m: "\<forall>q. map_of (files s') q =
       (if fst q = drawable_folder \<and> startswith (snd q) ''goblin_hurt_''
        then map_option PngFile (hurt_outputs (files s) hs (snd q)) else map_of (files s) q)"
    by blast
  have mn: "map_of (files s') (drawable_folder, n) = Some (PngFile c)"
    using m hurt_outputs_prefix[OF c] c by simp
  have g: "n \<in> set (goblin_files (files s'))"
    using map_of_SomeD[OF mn] hurt_outputs_size[OF c]
    by (force simp: goblin_files_def set_listdir)
  have o: "open_image (files s') (drawable_folder, n) = Inr c"
    using mn open_image_Inr_map_of by blast
  have "case max_dims (files s') (goblin_files (files s')) (0, 0) of
       Inl _ \<Rightarrow> True
     | Inr (mw, mh) \<Rightarrow> hurt_canvas \<le> mw \<and> hurt_canvas \<le> mh"
  proof (cases "max_dims (files s') (goblin_files (files s')) (0, 0)")
    case (Inr d)
    then obtain mw mh where d: "max_dims (files s') (goblin_files (files s')) (0, 0) = Inr (mw, mh)"
      by (cases d) auto
    from max_dims_Inr[OF d] g o hurt_outputs_size[OF c] have "hurt_canvas \<le> mw \<and> hurt_canvas \<le> mh"
      by fastforce
    then show ?thesis by (simp add: d)
  qed simp
  with r g show ?thesis by blast
qed

theorem hurt_frames_join_canvas_batch_witness:
  "\<exists>s'. extract_goblin_hurt_full hurt_sys = Inr s' \<and> ''goblin_hurt_0003.png'' \<in> set (goblin_files (files s')) \<and>
    (case max_dims (files s') (goblin_files (files s')) (0, 0) of
       Inl _ \<Rightarrow> True
     | Inr (mw, mh) \<Rightarrow> 201 \<le> mw \<and> 201 \<le> mh)"
proof -
  have wf: "wf_fs (files hurt_sys)" by code_simp
  have sel: "select_hurt (atk2_pngs (files hurt_sys)) = Inr [''0100.png'', ''0101.png'', ''0102.png'']"
    by code_simp
  from hurt_frames_join_canvas_batch[OF wf sel hurt_sys_third_frame] show ?thesis
    unfolding hurt_canvas_def .
qed

end
